theory Spec2Isabelle
  imports Complex_Main
begin

section \<open>Python values, errors and containers\<close>

text \<open>
  The sampler of \<^verbatim>\<open>src/sampler.py\<close> is a Python class. Every exception the source can
  raise is a value of \<open>error\<close>, and a method that can raise returns \<open>error + 'a\<close> with
  \<open>Inl\<close> for the exception. A finite Python float is the rational number it denotes.
  The arithmetic of \<open>level_converter\<close> is that of IEEE 754 binary64: every operation is
  rounded to the nearest double, ties to even, and an overflow surfaces as
  \<open>OverflowError\<close>. The quotients that define the magnifications, the products that scale
  mask indices to level 0 and the coverage fractions are written exactly: they are exact
  in doubles for the power-of-two factors of a pyramid, and the comparison of a coverage
  fraction with \<open>0.9\<close> has the same outcome in doubles for patch areas below \<open>2^50\<close>.
\<close>

datatype error =
    Exception
  | AssertionError
  | TypeError
  | ValueError
  | IndexError
  | NameError
  | AttributeError
  | ZeroDivisionError
  | OverflowError

fun and_then :: "error + 'a \<Rightarrow> ('a \<Rightarrow> error + 'b) \<Rightarrow> error + 'b" where
  "and_then (Inl e) f = Inl e"
| "and_then (Inr x) f = f x"

text \<open>\<open>xs[n]\<close> for an index that the code obtained as a list position.\<close>

definition getitem :: "'a list \<Rightarrow> nat \<Rightarrow> error + 'a" where
  "getitem xs n = (if n < length xs then Inr (xs ! n) else Inl IndexError)"

text \<open>\<open>xs[i]\<close> for an arbitrary Python integer: a negative index counts from the end.\<close>

definition py_getitem :: "'a list \<Rightarrow> int \<Rightarrow> error + 'a" where
  "py_getitem xs i =
     (let n = int (length xs); k = (if i < 0 then n + i else i)
      in if 0 \<le> k \<and> k < n then Inr (xs ! nat k) else Inl IndexError)"

text \<open>\<open>xs.index(x)\<close>: the first position of \<open>x\<close>, or \<open>ValueError\<close>.\<close>

fun first_index :: "'a list \<Rightarrow> 'a \<Rightarrow> nat option" where
  "first_index [] x = None"
| "first_index (y # ys) x =
     (if y = x then Some 0 else map_option Suc (first_index ys x))"

definition index :: "'a list \<Rightarrow> 'a \<Rightarrow> error + nat" where
  "index xs x = (case first_index xs x of None \<Rightarrow> Inl ValueError | Some n \<Rightarrow> Inr n)"

text \<open>\<open>int(x)\<close> on a float truncates towards zero.\<close>

definition py_int :: "rat \<Rightarrow> int" where
  "py_int x = (if 0 \<le> x then \<lfloor>x\<rfloor> else \<lceil>x\<rceil>)"

subsection \<open>Double precision\<close>

text \<open>
  \<open>bits n\<close> is the length of the binary numeral of a positive \<open>n\<close>, and \<open>binade x\<close>, for a positive
  \<open>x\<close>, the exponent \<open>e\<close> with \<open>2^e \<le> x < 2^(e + 1)\<close>. \<open>round_double\<close> rounds a rational to
  the nearest number with a significand of 53 bits, ties to even, with the fixed spacing
  \<open>2^(- 1074)\<close> below \<open>2^(- 1022)\<close> (the subnormal range). A result of magnitude \<open>2^1024\<close>
  or more is an infinity in IEEE arithmetic; \<open>float(x)\<close> of such an integer and \<open>int\<close> of an
  infinity raise \<open>OverflowError\<close>.
\<close>

function bits :: "int \<Rightarrow> nat" where
  "bits n = (if n \<le> 0 then 0 else Suc (bits (n div 2)))"
  by pat_completeness auto
termination
  by (relation "measure nat") auto

declare bits.simps [simp del]

definition binade :: "rat \<Rightarrow> int" where
  "binade x =
     (case quotient_of x of (p, q) \<Rightarrow>
        let d = int (bits p) - int (bits q)
        in if 2 powi d \<le> x then d else d - 1)"

definition round_half_even :: "rat \<Rightarrow> int" where
  "round_half_even y =
     (let f = \<lfloor>y\<rfloor>; d = y - of_int f
      in if d < 1 / 2 then f else if 1 / 2 < d then f + 1 else if even f then f else f + 1)"

definition round_double :: "rat \<Rightarrow> rat" where
  "round_double x =
     (if x = 0 then 0
      else let u = 2 powi (max (binade \<bar>x\<bar>) (- 1022) - 52)
           in sgn x * of_int (round_half_even (\<bar>x\<bar> / u)) * u)"

definition finite_double :: "rat \<Rightarrow> error + rat" where
  "finite_double x = (if \<bar>x\<bar> < 2 ^ 1024 then Inr x else Inl OverflowError)"

text \<open>
  The index range selected by the slice \<open>[lo:hi]\<close> on an axis of length \<open>n\<close>: negative
  bounds count from the end and both bounds are clamped to the axis.
\<close>

definition slice_bound :: "int \<Rightarrow> nat \<Rightarrow> nat" where
  "slice_bound k n = (if k < 0 then nat (max (k + int n) 0) else min (nat k) n)"

definition slice_range :: "int \<Rightarrow> int \<Rightarrow> nat \<Rightarrow> nat list" where
  "slice_range lo hi n = [slice_bound lo n ..< slice_bound hi n]"

section \<open>Collaborators\<close>

text \<open>
  An image is what the sampler inspects of a raster returned by the decoder: one value per
  pixel, row by row (the result of \<open>convert('L')\<close> for an annotation; for the slide itself
  the pixels are only passed through).
\<close>

type_synonym image = "nat list list"

text \<open>
  An \<open>openslide.OpenSlide\<close> handle: the level geometry, the region reader
  \<open>read_region(location, level, size)\<close> and \<open>float(properties['openslide.objective-power'])\<close>,
  which is \<open>None\<close> when the property is missing or not a number. Reads are taken to
  succeed.
\<close>

record slide =
  level_dimensions :: "(nat \<times> nat) list"
  level_downsamples :: "rat list"
  objective_power :: "rat option"
  read_region :: "int \<times> int \<Rightarrow> nat \<Rightarrow> int \<times> int \<Rightarrow> image"

text \<open>A two-dimensional numpy array of truth values with its \<open>dtype\<close> and shape.\<close>

datatype dtype = Bool | Uint8 | Float64

record ndarray =
  dtype :: dtype
  nrows :: nat
  ncols :: nat
  cell :: "nat \<Rightarrow> nat \<Rightarrow> bool"

text \<open>
  \<open>np.nonzero(mask)\<close>: the row and column indices of the true cells, in row-major order.
\<close>

definition nonzero :: "ndarray \<Rightarrow> (nat \<times> nat) list" where
  "nonzero m =
     concat (map (\<lambda>r. map (\<lambda>c. (r, c)) (filter (cell m r) [0..<ncols m])) [0..<nrows m])"

text \<open>
  \<open>np.sum(a[i:i + p, j:j + p].astype(int))\<close>: the number of true cells in the slice.
\<close>

definition slice_sum :: "ndarray \<Rightarrow> int \<Rightarrow> int \<Rightarrow> int \<Rightarrow> nat" where
  "slice_sum a i j p =
     sum_list (map (\<lambda>r. length (filter (cell a r) (slice_range j (j + p) (ncols a))))
                   (slice_range i (i + p) (nrows a)))"

text \<open>
  The object read as \<open>self.background\<close> by the patch extractor. No statement of the class
  assigns this attribute; its fields are the ones the extractor reads (\<open>data\<close>, \<open>level\<close>
  and \<open>patchsize\<close>).
\<close>

record background =
  bg_data :: ndarray
  bg_level :: nat
  bg_patchsize :: int

text \<open>
  Modelled from the spec: \<open>ut.val_in_list\<close> of \<^verbatim>\<open>modules/utils.py\<close> is not part of the
  sources at hand. Following section 4.1 of the specification it selects a position of the
  list whose value is within \<open>tol\<close> absolute units of \<open>val\<close>, and reports failure when no
  position qualifies. The first qualifying position is taken.
\<close>

definition val_in_list :: "rat \<Rightarrow> rat list \<Rightarrow> rat \<Rightarrow> bool \<times> nat" where
  "val_in_list val xs tol =
     (case filter (\<lambda>n. \<bar>xs ! n - val\<bar> \<le> tol) [0..<length xs] of
        [] \<Rightarrow> (False, 0)
      | n # _ \<Rightarrow> (True, n))"

section \<open>The sampler\<close>

text \<open>The attributes that \<open>__init__\<close> assigns, and \<open>background\<close>, which it does not.\<close>

record sampler =
  wsi_file :: string
  tissue_mask_dir :: string
  annotation_dir :: "string option"
  fileID :: string
  wsi :: slide
  level0 :: rat
  magnifications :: "rat list"
  tissue_mask_level :: nat
  tissue_mask_mag :: rat
  tissue_mask :: ndarray
  annotation :: "slide option"
  background :: "background option"

subsection \<open>Sampler specific util methods\<close>

text \<open>
  \<open>get_level\<close> reads \<open>self\<close> only through \<open>self.magnifications\<close>, and \<open>__init__\<close> calls it
  before the other attributes exist, so the model takes that list. \<open>None\<close> is Python's
  \<open>None\<close>, returned after the warning is printed.
\<close>

definition get_level :: "rat list \<Rightarrow> rat \<Rightarrow> rat \<Rightarrow> nat option" where
  "get_level mags magnification tol =
     (case val_in_list magnification mags tol of
        (truth, idx) \<Rightarrow> if \<not> truth then None else Some idx)"

text \<open>
  \<open>level_converter\<close>: \<open>int(x * downsamples[lvl_in] / downsamples[lvl_out])\<close>, evaluated
  from left to right in doubles: the integer \<open>x\<close> is converted to a float (\<open>OverflowError\<close>
  if it is too large), multiplied by the first factor, and the product is divided by the
  second factor (\<open>ZeroDivisionError\<close> if that is zero); a product or quotient that
  overflowed is an infinity, on which \<open>int\<close> raises \<open>OverflowError\<close>. The method reads
  \<open>self\<close> only through \<open>self.wsi\<close>.
\<close>

definition level_converter :: "slide \<Rightarrow> int \<Rightarrow> nat \<Rightarrow> nat \<Rightarrow> error + int" where
  "level_converter w x lvl_in lvl_out =
     and_then (getitem (level_downsamples w) lvl_in) (\<lambda>a.
     and_then (finite_double (round_double (of_int x))) (\<lambda>xf.
     and_then (getitem (level_downsamples w) lvl_out) (\<lambda>b.
       if b = 0 then Inl ZeroDivisionError
       else
         and_then (finite_double (round_double (xf * a))) (\<lambda>m.
         and_then (finite_double (round_double (m / b))) (\<lambda>q.
           Inr (py_int q))))))"

subsection \<open>Sampling session\<close>

text \<open>
  The attributes added by \<open>prepare_sampling\<close>; \<open>base\<close> is the object as \<open>__init__\<close> left
  it. \<open>annotation_level\<close> is assigned only when an annotation is present. A seed is the
  pair \<open>(h, w)\<close> of a row and a column at level 0.
\<close>

record session =
  base :: sampler
  level :: nat
  leveldim :: "nat \<times> nat"
  ps :: int
  ps_tm :: int
  annotation_level :: "nat option"
  class_list :: "nat list"
  class_seeds :: "(int \<times> int) list list"
  rejected :: nat

text \<open>One row of the patch frame: the \<open>info\<close> dictionary of an accepted patch.\<close>

record info =
  info_w :: int
  info_h :: int
  info_parent :: string
  info_size :: int
  info_level :: nat
  info_class :: nat
  info_id :: string

text \<open>
  \<open>_get_classes_and_seeds\<close>. The argument \<open>shuffle\<close> is the permutation that
  \<open>random.shuffle\<close> applies to the class-0 pool. With an annotation present the method
  reaches line 146, whose argument \<open>down\<close> is bound neither in the method nor in the
  module: evaluating it raises \<open>NameError\<close>, so nothing after it is ever executed.
\<close>

definition get_classes_and_seeds ::
  "((int \<times> int) list \<Rightarrow> (int \<times> int) list) \<Rightarrow> sampler \<Rightarrow>
     error + (nat list \<times> (int \<times> int) list list)" where
  "get_classes_and_seeds shuffle self =
     and_then (getitem (level_downsamples (wsi self)) (tissue_mask_level self)) (\<lambda>factor.
       let coordinates =
             shuffle (map (\<lambda>(r, c). (py_int (of_nat r * factor), py_int (of_nat c * factor)))
                          (nonzero (tissue_mask self)))
       in case annotation self of
            None \<Rightarrow> Inr ([0], [coordinates])
          | Some a \<Rightarrow> Inl NameError)"

text \<open>
  \<open>prepare_sampling\<close>. A level that \<open>get_level\<close> did not find is \<open>None\<close>, and indexing
  \<open>level_dimensions\<close> with it raises \<open>TypeError\<close>. The tolerance is the default \<open>0.01\<close>.
\<close>

definition prepare_sampling ::
  "((int \<times> int) list \<Rightarrow> (int \<times> int) list) \<Rightarrow> sampler \<Rightarrow> rat \<Rightarrow> int \<Rightarrow> error + session" where
  "prepare_sampling shuffle self magnification patchsize =
     (case get_level (magnifications self) magnification (1 / 100) of
        None \<Rightarrow> Inl TypeError
      | Some lvl \<Rightarrow>
          and_then (getitem (level_dimensions (wsi self)) lvl) (\<lambda>ldim.
          and_then (level_converter (wsi self) patchsize lvl (tissue_mask_level self)) (\<lambda>pstm.
          and_then (case annotation self of
                      None \<Rightarrow> Inr None
                    | Some a \<Rightarrow>
                        if ldim \<in> set (level_dimensions a)
                        then map_sum id Some (index (level_dimensions a) ldim)
                        else Inl AssertionError) (\<lambda>alvl.
          and_then (get_classes_and_seeds shuffle self) (\<lambda>(cl, cs).
            Inr \<lparr>base = self, level = lvl, leveldim = ldim, ps = patchsize, ps_tm = pstm,
                 annotation_level = alvl, class_list = cl, class_seeds = cs,
                 rejected = 0\<rparr>)))))"

subsection \<open>Patch extraction\<close>

text \<open>
  \<open>_class_c_patch_i\<close> returns \<open>(patch, info)\<close> or \<open>(None, None)\<close>; the model returns the
  pair as an option together with the object after the call. The comparison
  \<open>np.sum(x) / n > 0.9\<close> is written \<open>10 * sum > 9 * n\<close>; for \<open>n = 0\<close> numpy yields
  \<open>nan\<close>, which is not greater than \<open>0.9\<close>, and the integer form agrees. Reading
  \<open>self.background\<close> or \<open>self.annotation_level\<close> while the attribute is absent raises
  \<open>AttributeError\<close>.
\<close>

definition class_c_patch_i ::
  "session \<Rightarrow> nat \<Rightarrow> int \<Rightarrow> error + ((image \<times> info) option \<times> session)" where
  "class_c_patch_i self c i =
     and_then (index (class_list self) c) (\<lambda>idx.
     and_then (getitem (class_seeds self) idx) (\<lambda>pool.
     and_then (py_getitem pool i) (\<lambda>(h, w).
       let patch = read_region (wsi (base self)) (w, h) (level self) (ps self, ps self)
       in case background (base self) of
            None \<Rightarrow> Inl AttributeError
          | Some bg \<Rightarrow>
              and_then (level_converter (wsi (base self)) h 0 (bg_level bg)) (\<lambda>i'.
              and_then (level_converter (wsi (base self)) w 0 (bg_level bg)) (\<lambda>j'.
                if \<not> 10 * int (slice_sum (bg_data bg) i' j' (bg_patchsize bg)) > 9 * (bg_patchsize bg)\<^sup>2
                then Inr (None, self\<lparr>rejected := rejected self + 1\<rparr>)
                else
                  let info = \<lparr>info_w = w, info_h = h, info_parent = wsi_file (base self),
                              info_size = ps self, info_level = level self, info_class = c,
                              info_id = fileID (base self)\<rparr>
                  in case annotation (base self) of
                       None \<Rightarrow> Inr (Some (patch, info), self)
                     | Some a \<Rightarrow>
                         (case annotation_level self of
                            None \<Rightarrow> Inl AttributeError
                          | Some alvl \<Rightarrow>
                              let annotation_patch = read_region a (w, h) alvl (ps self, ps self);
                                  mask_sum = sum_list (map (\<lambda>row. length (filter (\<lambda>v. v \<noteq> c) row))
                                                           annotation_patch)
                              in if 10 * int mask_sum > 9 * (ps self)\<^sup>2
                                 then Inr (None, self\<lparr>rejected := rejected self + 1\<rparr>)
                                 else Inr (Some (patch, info), self)))))))"

subsection \<open>The sampling loop\<close>

text \<open>
  The inner loop of \<open>sample_patches\<close> over \<open>enumerate(seeds)\<close>: \<open>j\<close> is the position of the
  next seed and \<open>seeds\<close> what is left of the pool. The frame grows by the \<open>info\<close> of every
  accepted patch; the loop breaks once \<open>j >= max_per_class - 1\<close>.
\<close>

fun sample_class ::
  "session \<Rightarrow> int \<Rightarrow> nat \<Rightarrow> nat \<Rightarrow> (int \<times> int) list \<Rightarrow> info list \<Rightarrow> error + (info list \<times> session)" where
  "sample_class self max_per_class c j [] frame = Inr (frame, self)"
| "sample_class self max_per_class c j (seed # seeds) frame =
     and_then (class_c_patch_i self c (int j)) (\<lambda>(r, self').
       let frame' = (case r of None \<Rightarrow> frame | Some (_, info) \<Rightarrow> frame @ [info])
       in if int j \<ge> max_per_class - 1 then Inr (frame', self')
          else sample_class self' max_per_class c (Suc j) seeds frame')"

text \<open>The outer loop over \<open>enumerate(self.class_list)\<close>.\<close>

fun sample_classes ::
  "session \<Rightarrow> int \<Rightarrow> nat \<Rightarrow> nat list \<Rightarrow> info list \<Rightarrow> error + (info list \<times> session)" where
  "sample_classes self max_per_class i [] frame = Inr (frame, self)"
| "sample_classes self max_per_class i (c # cs) frame =
     and_then (getitem (class_seeds self) i) (\<lambda>seeds.
     and_then (sample_class self max_per_class c 0 seeds frame) (\<lambda>(frame', self').
       sample_classes self' max_per_class (Suc i) cs frame'))"

text \<open>
  \<open>sample_patches\<close>: the frame that is pickled, and the object with its rejection count.
\<close>

definition sample_patches :: "session \<Rightarrow> int \<Rightarrow> error + (info list \<times> session)" where
  "sample_patches self max_per_class =
     sample_classes self max_per_class 0 (class_list self) []"

subsection \<open>Construction\<close>

text \<open>
  What the collaborators of \<open>__init__\<close> answer: \<open>openslide.OpenSlide\<close>, the identifier
  \<open>os.path.splitext(os.path.basename(wsi_file))[0]\<close>, the cached mask that
  \<open>ut.string_in_directory\<close> and \<open>np.load\<close> find for an identifier in a directory (if any),
  \<open>tmg.generate_tissue_mask\<close>, and the annotation slide found for an identifier in a
  directory (if any).
\<close>

record world =
  open_slide :: "string \<Rightarrow> slide"
  file_id :: "string \<Rightarrow> string"
  find_tissue_mask :: "string \<Rightarrow> string \<Rightarrow> ndarray option"
  generate_tissue_mask :: "slide \<Rightarrow> nat \<Rightarrow> ndarray"
  find_annotation :: "string \<Rightarrow> string \<Rightarrow> slide option"

datatype level0_arg = Infer | Given rat

text \<open>
  \<open>__init__\<close>. The shape of a loaded mask is \<open>(nrows, ncols)\<close>, so \<open>shape[::-1]\<close> is
  \<open>(ncols, nrows)\<close>. Saving a freshly generated mask does not change the object and is
  left out. The attribute \<open>background\<close> is not assigned: it is absent.
\<close>

definition init ::
  "world \<Rightarrow> string \<Rightarrow> level0_arg \<Rightarrow> string \<Rightarrow> string option \<Rightarrow> error + sampler" where
  "init world wsi_file' level0' tissue_mask_dir' annotation_dir' =
     (let fid = file_id world wsi_file'; w = open_slide world wsi_file' in
      and_then (case level0' of
                  Infer \<Rightarrow> (case objective_power w of None \<Rightarrow> Inl Exception | Some p \<Rightarrow> Inr p)
                | Given x \<Rightarrow> Inr x) (\<lambda>l0.
      and_then (if 0 \<in> set (level_downsamples w) then Inl ZeroDivisionError
                else Inr (map (\<lambda>downsample. l0 / downsample) (level_downsamples w))) (\<lambda>mags.
      and_then (case find_tissue_mask world fid tissue_mask_dir' of
                  None \<Rightarrow>
                    (case get_level mags (5 / 4) 10 of
                       None \<Rightarrow> Inl TypeError
                     | Some tml \<Rightarrow>
                         and_then (getitem mags tml) (\<lambda>tmm.
                           let tm = generate_tissue_mask world w tml
                           in if dtype tm = Bool then Inr (tml, tmm, tm)
                              else Inl AssertionError))
                | Some tm \<Rightarrow>
                    if dtype tm \<noteq> Bool then Inl AssertionError
                    else
                      and_then (index (level_dimensions w) (ncols tm, nrows tm)) (\<lambda>tml.
                      and_then (getitem mags tml) (\<lambda>tmm. Inr (tml, tmm, tm)))) (\<lambda>(tml, tmm, tm).
        Inr \<lparr>wsi_file = wsi_file', tissue_mask_dir = tissue_mask_dir',
             annotation_dir = annotation_dir', fileID = fid, wsi = w, level0 = l0,
             magnifications = mags, tissue_mask_level = tml, tissue_mask_mag = tmm,
             tissue_mask = tm,
             annotation = (case annotation_dir' of
                             None \<Rightarrow> None
                           | Some d \<Rightarrow> find_annotation world fid d),
             background = None\<rparr>))))"

subsection \<open>Sequences of extraction calls\<close>

text \<open>
  A client that calls the extractor for a list of \<open>(c, i)\<close> requests, one after the other,
  on the same object. A call that raises leaves the object as it was (every \<open>raise\<close> of
  the extractor precedes its only assignment). The result is the object after the last
  call and the number of calls that returned \<open>(None, None)\<close>.
\<close>

fun extraction_calls :: "session \<Rightarrow> (nat \<times> int) list \<Rightarrow> session \<times> nat" where
  "extraction_calls self [] = (self, 0)"
| "extraction_calls self ((c, i) # calls) =
     (case class_c_patch_i self c i of
        Inl e \<Rightarrow> extraction_calls self calls
      | Inr (None, self') \<Rightarrow> (case extraction_calls self' calls of (s, n) \<Rightarrow> (s, Suc n))
      | Inr (Some patch, self') \<Rightarrow> extraction_calls self' calls)"

subsection \<open>Comparing objects\<close>

text \<open>
  The session of an object that differs only in the stored name of its annotation
  directory, used to compare a sampler constructed with a directory that holds no
  annotation with one constructed without a directory.
\<close>

definition forget_annotation_dir :: "session \<Rightarrow> session" where
  "forget_annotation_dir self = self\<lparr>base := (base self)\<lparr>annotation_dir := None\<rparr>\<rparr>"

section \<open>Concrete slides\<close>

text \<open>
  A pyramid of two levels, the second sixteen times smaller in area, with its cached
  tissue mask: a boolean array of two rows and two columns, true everywhere.
\<close>

definition two_level_slide :: slide where
  "two_level_slide =
     \<lparr>level_dimensions = [(8, 8), (2, 2)], level_downsamples = [1, 4],
      objective_power = Some 40, read_region = (\<lambda>location lvl size. [])\<rparr>"

definition full_mask :: ndarray where
  "full_mask = \<lparr>dtype = Bool, nrows = 2, ncols = 2, cell = (\<lambda>r c. True)\<rparr>"

text \<open>
  A world in which the mask is cached and the annotation directory holds no file for the
  slide, and one in which it holds an annotation pyramid of the same geometry.
\<close>

definition plain_world :: world where
  "plain_world =
     \<lparr>open_slide = (\<lambda>path. two_level_slide), file_id = (\<lambda>path. ''slide''),
      find_tissue_mask = (\<lambda>fid dir. Some full_mask),
      generate_tissue_mask = (\<lambda>w lvl. full_mask),
      find_annotation = (\<lambda>fid dir. None)\<rparr>"

definition annotated_world :: world where
  "annotated_world = plain_world\<lparr>find_annotation := (\<lambda>fid dir. Some two_level_slide)\<rparr>"

text \<open>
  The sampler that \<open>__init__\<close> builds in the plain world for level 0 at 40X, and the
  session that \<open>prepare_sampling(40, 2)\<close> builds from it when \<open>random.shuffle\<close> reverses
  the pool.
\<close>

definition plain_sampler :: sampler where
  "plain_sampler =
     \<lparr>wsi_file = ''slide.tif'', tissue_mask_dir = ''tm'', annotation_dir = None,
      fileID = ''slide'', wsi = two_level_slide, level0 = 40, magnifications = [40, 10],
      tissue_mask_level = 1, tissue_mask_mag = 10, tissue_mask = full_mask,
      annotation = None, background = None\<rparr>"

definition plain_session :: session where
  "plain_session =
     \<lparr>base = plain_sampler, level = 0, leveldim = (8, 8), ps = 2, ps_tm = 0,
      annotation_level = None, class_list = [0],
      class_seeds = [[(4, 4), (4, 0), (0, 4), (0, 0)]], rejected = 0\<rparr>"

text \<open>
  The sampler that \<open>__init__\<close> builds in the annotated world when the annotation
  directory \<open>ann\<close> is given.
\<close>

definition annotated_sampler :: sampler where
  "annotated_sampler =
     plain_sampler\<lparr>annotation_dir := Some ''ann'', annotation := Some two_level_slide\<rparr>"

text \<open>
  A session on a slide of 80 by 40 pixels whose \<open>background\<close> attribute a client has
  assigned: a raster of ten rows and twenty columns at level 1 with patch size 10. It is
  the tissue mask itself, at the tissue-mask level, with the patch size 40 of level 0
  converted to that level. Its last row is false in the left half, so the ten by ten
  window at the origin holds exactly 90 true cells out of 100, and the window ten columns
  to the right holds 100.
\<close>

definition wide_slide :: slide where
  "wide_slide =
     \<lparr>level_dimensions = [(80, 40), (20, 10)], level_downsamples = [1, 4],
      objective_power = Some 40, read_region = (\<lambda>location lvl size. [])\<rparr>"

definition wide_background :: background where
  "wide_background =
     \<lparr>bg_data = \<lparr>dtype = Bool, nrows = 10, ncols = 20, cell = (\<lambda>r c. r < 9 \<or> 10 \<le> c)\<rparr>,
      bg_level = 1, bg_patchsize = 10\<rparr>"

definition wide_sampler :: sampler where
  "wide_sampler =
     \<lparr>wsi_file = ''wide.tif'', tissue_mask_dir = ''tm'', annotation_dir = None,
      fileID = ''wide'', wsi = wide_slide, level0 = 40, magnifications = [40, 10],
      tissue_mask_level = 1, tissue_mask_mag = 10,
      tissue_mask = bg_data wide_background, annotation = None,
      background = Some wide_background\<rparr>"

definition wide_session :: session where
  "wide_session =
     \<lparr>base = wide_sampler, level = 0, leveldim = (80, 40), ps = 40, ps_tm = 10,
      annotation_level = None, class_list = [0],
      class_seeds = [[(0, 0), (0, 40), (0, 40)]], rejected = 0\<rparr>"

section \<open>Auxiliary facts\<close>

lemma and_then_Inr_iff: "and_then m f = Inr y \<longleftrightarrow> (\<exists>x. m = Inr x \<and> f x = Inr y)"
  by (cases m) auto

lemma py_int_nonneg: "0 \<le> x \<Longrightarrow> py_int x = \<lfloor>x\<rfloor>"
  by (simp add: py_int_def)

lemma floor_round_trip:
  fixes a b :: rat and v :: int
  assumes a: "0 < a" and b: "0 < b"
  defines "u \<equiv> \<lfloor>of_int v * a / b\<rfloor>"
  defines "r \<equiv> \<lfloor>of_int u * b / a\<rfloor>"
  shows "r \<le> v" and "of_int (v - r) < b / a + 1"
proof -
  have u_le: "of_int u \<le> of_int v * a / b" unfolding u_def by linarith
  have u_gt: "of_int v * a / b < of_int u + 1" unfolding u_def by linarith
  have "of_int u * b \<le> of_int v * a" using u_le b by (simp add: pos_le_divide_eq)
  then have "of_int u * b / a \<le> of_int v" using a by (simp add: pos_divide_le_eq)
  then have "\<lfloor>of_int u * b / a\<rfloor> \<le> v" by (simp add: floor_le_iff)
  then show "r \<le> v" by (simp add: r_def)
  have "of_int v * a < (of_int u + 1) * b" using u_gt b by (simp add: pos_divide_less_eq)
  then have "of_int v < (of_int u + 1) * b / a" using a by (simp add: pos_less_divide_eq)
  then have 1: "of_int v < of_int u * b / a + b / a"
    by (simp add: add_divide_distrib algebra_simps)
  have 2: "of_int u * b / a < of_int r + 1" unfolding r_def by linarith
  show "of_int (v - r) < b / a + 1" using 1 2 by simp
qed

subsection \<open>Rounding to doubles\<close>

lemma bits_nonpos: "n \<le> 0 \<Longrightarrow> bits n = 0"
  by (simp add: bits.simps[of n])

lemma bits_pos: "0 < n \<Longrightarrow> bits n = Suc (bits (n div 2))"
  by (simp add: bits.simps[of n])

lemma bits_bounds: "0 < n \<Longrightarrow> 2 ^ (bits n - 1) \<le> n \<and> n < 2 ^ bits n"
proof (induction "nat n" arbitrary: n rule: less_induct)
  case less
  show ?case
  proof (cases "n div 2 = 0")
    case True
    then have n1: "n = 1" using less.prems by presburger
    have "bits n = 1" unfolding n1 by (simp add: bits_pos bits_nonpos)
    then show ?thesis using n1 by simp
  next
    case False
    then have p: "0 < n div 2" using less.prems by presburger
    have "n div 2 < n" using less.prems by (simp add: int_div_less_self)
    then have "nat (n div 2) < nat n" using less.prems by (simp add: nat_mono_iff)
    from less.hyps[OF this p]
    have ih: "2 ^ (bits (n div 2) - 1) \<le> n div 2" "n div 2 < 2 ^ bits (n div 2)" by auto
    have b: "bits n = Suc (bits (n div 2))" using less.prems by (rule bits_pos)
    have pos: "0 < bits (n div 2)" using p by (simp add: bits_pos)
    have "(2::int) ^ (bits n - 1) = 2 * 2 ^ (bits (n div 2) - 1)"
      using b pos by (cases "bits (n div 2)") auto
    also have "\<dots> \<le> 2 * (n div 2)" using ih(1) by simp
    also have "\<dots> \<le> n" by presburger
    finally have lo: "2 ^ (bits n - 1) \<le> n" .
    have "n < 2 * (n div 2) + 2" by presburger
    also have "\<dots> \<le> 2 * 2 ^ bits (n div 2)" using ih(2) by simp
    finally have hi: "n < 2 ^ bits n" using b by simp
    show ?thesis using lo hi by simp
  qed
qed

lemma two_powi_pos: "(0::rat) < 2 powi k"
  by (simp add: zero_less_power_int)

lemma two_powi_add: "(2::rat) powi (j + k) = 2 powi j * 2 powi k"
  by (simp add: power_int_add)

lemma two_powi_diff: "(2::rat) powi (j - k) = 2 powi j / 2 powi k"
  by (simp add: power_int_diff)

lemma two_powi_mono: "j \<le> k \<Longrightarrow> (2::rat) powi j \<le> 2 powi k"
  by (rule power_int_increasing) simp_all

lemma two_powi_less_imp: "(2::rat) powi j < 2 powi k \<Longrightarrow> j < k"
  using two_powi_mono[of k j] by (cases "j < k") auto

lemma binade_bounds:
  assumes x: "0 < x"
  shows "2 powi (binade x) \<le> x \<and> x < 2 powi (binade x + 1)"
proof -
  obtain p q where pq: "quotient_of x = (p, q)" by (cases "quotient_of x")
  have q: "0 < q" using quotient_of_denom_pos[OF pq] .
  have xe: "x = of_int p / of_int q" using quotient_of_div[OF pq] .
  have p: "0 < p" using x q xe by (simp add: zero_less_divide_iff)
  define bp where "bp = bits p"
  define bq where "bq = bits q"
  define d where "d = int bp - int bq"
  from bits_bounds[OF p] have pb: "2 ^ (bp - 1) \<le> p" "p < 2 ^ bp"
    by (simp_all add: bp_def)
  from bits_bounds[OF q] have qb: "2 ^ (bq - 1) \<le> q" "q < 2 ^ bq"
    by (simp_all add: bq_def)
  have bp1: "1 \<le> bp" using p by (simp add: bp_def bits_pos)
  have bq1: "1 \<le> bq" using q by (simp add: bq_def bits_pos)
  have plo: "(2::rat) ^ (bp - 1) \<le> of_int p"
    using pb(1) by (metis of_int_le_iff of_int_numeral of_int_power)
  have phi: "(of_int p :: rat) < 2 ^ bp"
    using pb(2) by (metis of_int_less_iff of_int_numeral of_int_power)
  have qlo: "(2::rat) ^ (bq - 1) \<le> of_int q"
    using qb(1) by (metis of_int_le_iff of_int_numeral of_int_power)
  have qhi: "(of_int q :: rat) < 2 ^ bq"
    using qb(2) by (metis of_int_less_iff of_int_numeral of_int_power)
  have qpos: "(0::rat) < of_int q" using q by simp
  have "of_int p * (2::rat) ^ (bq - 1) < 2 ^ bp * of_int q"
  proof -
    have "of_int p * (2::rat) ^ (bq - 1) < 2 ^ bp * 2 ^ (bq - 1)"
      using phi by simp
    also have "\<dots> \<le> 2 ^ bp * of_int q" using qlo by simp
    finally show ?thesis .
  qed
  then have "x < 2 ^ bp / 2 ^ (bq - 1)"
    unfolding xe using qpos by (simp add: field_simps)
  also have "(2::rat) ^ bp / 2 ^ (bq - 1) = 2 powi (int bp - int (bq - 1))"
    by (simp add: two_powi_diff)
  also have "int bp - int (bq - 1) = d + 1" using bq1 by (simp add: d_def)
  finally have up: "x < 2 powi (d + 1)" .
  have "(2::rat) ^ (bp - 1) * of_int q \<le> of_int p * 2 ^ bq"
  proof -
    have "(2::rat) ^ (bp - 1) * of_int q \<le> 2 ^ (bp - 1) * 2 ^ bq"
      using qhi by simp
    also have "\<dots> \<le> of_int p * 2 ^ bq" using plo by simp
    finally show ?thesis .
  qed
  then have "(2::rat) ^ (bp - 1) / 2 ^ bq \<le> x"
    unfolding xe using qpos by (simp add: field_simps)
  moreover have "(2::rat) ^ (bp - 1) / 2 ^ bq = 2 powi (int (bp - 1) - int bq)"
    by (simp add: two_powi_diff)
  moreover have "int (bp - 1) - int bq = d - 1" using bp1 by (simp add: d_def)
  ultimately have lo: "2 powi (d - 1) \<le> x" by simp
  have bin: "binade x = (if 2 powi d \<le> x then d else d - 1)"
    by (simp add: binade_def pq Let_def d_def bp_def bq_def)
  show ?thesis
  proof (cases "2 powi d \<le> x")
    case True
    then show ?thesis using bin up by simp
  next
    case False
    then show ?thesis using bin lo by simp
  qed
qed

lemma binade_less: "0 < x \<Longrightarrow> x < 2 powi k \<Longrightarrow> binade x < k"
  using binade_bounds[of x] two_powi_less_imp[of "binade x" k] by simp

lemma binade_ge: "0 < x \<Longrightarrow> 2 powi k \<le> x \<Longrightarrow> k \<le> binade x"
  using binade_bounds[of x] two_powi_less_imp[of k "binade x + 1"] by simp

lemma round_half_even_int: "round_half_even (of_int z) = z"
  by (simp add: round_half_even_def)

lemma round_half_even_error: "\<bar>of_int (round_half_even y) - y\<bar> \<le> 1 / 2"
proof -
  have "of_int \<lfloor>y\<rfloor> \<le> y" "y < of_int \<lfloor>y\<rfloor> + 1" by linarith+
  then show ?thesis
    by (auto simp: round_half_even_def Let_def abs_le_iff)
qed


lemma round_double_exact:
  assumes n: "\<bar>n\<bar> < 2 ^ 53" and k: "- 1074 \<le> k"
  shows "round_double (of_int n * 2 powi k) = of_int n * 2 powi k"
proof (cases "n = 0")
  case True
  then show ?thesis by (simp add: round_double_def)
next
  case False
  define x :: rat where "x = of_int n * 2 powi k"
  have x0: "x \<noteq> 0" using False by (simp add: x_def)
  have ax: "\<bar>x\<bar> = of_int \<bar>n\<bar> * 2 powi k"
    by (simp add: x_def abs_mult)
  have axpos: "0 < \<bar>x\<bar>" using x0 by simp
  have "(of_int \<bar>n\<bar> :: rat) < 2 ^ 53" using n by (metis of_int_less_numeral_power_cancel_iff)
  then have "\<bar>x\<bar> < 2 ^ 53 * 2 powi k"
    unfolding ax using two_powi_pos[of k] by (simp del: of_int_abs)
  also have "(2::rat) ^ 53 * 2 powi k = 2 powi (53 + k)"
    by (simp add: two_powi_add)
  finally have "binade \<bar>x\<bar> < 53 + k" using binade_less[OF axpos] by simp
  then have E: "max (binade \<bar>x\<bar>) (- 1022) - 52 \<le> k" using k by simp
  define j where "j = nat (k - (max (binade \<bar>x\<bar>) (- 1022) - 52))"
  define u :: rat where "u = 2 powi (max (binade \<bar>x\<bar>) (- 1022) - 52)"
  have upos: "0 < u" by (simp add: u_def two_powi_pos)
  have kj: "k = (max (binade \<bar>x\<bar>) (- 1022) - 52) + int j" using E by (simp add: j_def)
  have "(2::rat) powi k = u * 2 ^ j"
    by (subst kj) (simp add: two_powi_add u_def)
  then have q: "\<bar>x\<bar> / u = of_int (\<bar>n\<bar> * 2 ^ j)"
    unfolding ax using upos by (simp del: of_int_abs)
  have "round_double x = sgn x * of_int (round_half_even (\<bar>x\<bar> / u)) * u"
    using x0 by (simp add: round_double_def u_def Let_def)
  also have "\<dots> = sgn x * (\<bar>x\<bar> / u) * u"
    unfolding q round_half_even_int ..
  also have "\<dots> = sgn x * \<bar>x\<bar>" using upos by simp
  also have "\<dots> = x" by (simp add: sgn_mult_abs)
  finally show ?thesis by (simp add: x_def)
qed

lemma round_double_int: "\<bar>n\<bar> < 2 ^ 53 \<Longrightarrow> round_double (of_int n) = of_int n"
  using round_double_exact[of n 0] by simp

lemma round_double_error:
  assumes x: "2 powi (- 1022) \<le> x"
  shows "\<bar>round_double x - x\<bar> \<le> x / 2 ^ 53"
proof -
  have xpos: "0 < x" using x two_powi_pos[of "- 1022"] by linarith
  have e: "- 1022 \<le> binade x" using binade_ge[OF xpos x] .
  define u :: rat where "u = 2 powi (binade x - 52)"
  have upos: "0 < u" by (simp add: u_def two_powi_pos)
  have rd: "round_double x = of_int (round_half_even (x / u)) * u"
    using xpos e by (simp add: round_double_def u_def Let_def max_def)
  have "round_double x - x = (of_int (round_half_even (x / u)) - x / u) * u"
    unfolding rd using upos by (simp add: algebra_simps)
  then have "\<bar>round_double x - x\<bar> = \<bar>of_int (round_half_even (x / u)) - x / u\<bar> * u"
    using upos by (simp add: abs_mult)
  also have "\<dots> \<le> 1 / 2 * u"
    using round_half_even_error[of "x / u"] upos by (intro mult_right_mono) simp_all
  also have "1 / 2 * u = 2 powi (binade x) / 2 ^ 53"
    by (simp add: u_def two_powi_diff)
  also have "\<dots> \<le> x / 2 ^ 53"
    using binade_bounds[OF xpos] by (simp add: divide_right_mono)
  finally show ?thesis .
qed

lemma round_double_zero: "round_double 0 = 0"
  by (simp add: round_double_def)


lemma finite_double_small: "\<bar>x\<bar> < 2 ^ 1024 \<Longrightarrow> finite_double x = Inr x"
  by (simp add: finite_double_def)

lemma dyadic_small:
  assumes "\<bar>n\<bar> < 2 ^ 53" and "j \<le> 200"
  shows "\<bar>of_int n * (2::rat) powi j\<bar> < 2 ^ 1024"
proof -
  have "(of_int \<bar>n\<bar> :: rat) < 2 ^ 53"
    using assms(1) by (metis of_int_less_numeral_power_cancel_iff)
  then have "\<bar>of_int n * (2::rat) powi j\<bar> < 2 ^ 53 * 2 powi j"
    using two_powi_pos[of j] by (simp add: abs_mult del: of_int_abs)
  also have "\<dots> \<le> 2 ^ 53 * 2 powi 200"
    using two_powi_mono[OF assms(2)] by simp
  also have "\<dots> < 2 ^ 1024" by simp
  finally show ?thesis .
qed

lemma level_converter_dyadic:
  assumes A: "A < length (level_downsamples w)" and B: "B < length (level_downsamples w)"
    and a: "level_downsamples w ! A = 2 ^ ma" and b: "level_downsamples w ! B = 2 ^ mb"
    and ma: "ma \<le> 64" and mb: "mb \<le> 64"
    and x: "(of_int x :: rat) = of_int n * 2 powi k" and n: "\<bar>n\<bar> < 2 ^ 53"
    and k: "0 \<le> k" "k \<le> 64" and x0: "0 \<le> x"
  shows "level_converter w x A B =
           Inr \<lfloor>of_int x * level_downsamples w ! A / level_downsamples w ! B\<rfloor>"
proof -
  have r1: "round_double (of_int x) = of_int x"
    unfolding x using n k by (intro round_double_exact) simp_all
  have f1: "finite_double (of_int x :: rat) = Inr (of_int x)"
    unfolding x using n k by (intro finite_double_small dyadic_small) simp_all
  have xa: "(of_int x :: rat) * 2 ^ ma = of_int n * 2 powi (k + int ma)"
    unfolding x by (simp add: two_powi_add)
  have r2: "round_double (of_int x * 2 ^ ma) = of_int x * 2 ^ ma"
    unfolding xa using n k by (intro round_double_exact) simp_all
  have f2: "finite_double ((of_int x :: rat) * 2 ^ ma) = Inr (of_int x * 2 ^ ma)"
    unfolding xa using n k ma by (intro finite_double_small dyadic_small) simp_all
  have xab: "(of_int x :: rat) * 2 ^ ma / 2 ^ mb = of_int n * 2 powi (k + int ma - int mb)"
    unfolding x by (simp add: two_powi_add two_powi_diff)
  have r3: "round_double (of_int x * 2 ^ ma / 2 ^ mb) = of_int x * 2 ^ ma / 2 ^ mb"
    unfolding xab using n k mb by (intro round_double_exact) simp_all
  have f3: "finite_double ((of_int x :: rat) * 2 ^ ma / 2 ^ mb) = Inr (of_int x * 2 ^ ma / 2 ^ mb)"
    unfolding xab using n k ma by (intro finite_double_small dyadic_small) simp_all
  have nn: "(0::rat) \<le> of_int x * 2 ^ ma / 2 ^ mb" using x0 by simp
  show ?thesis
    using A B by (simp add: level_converter_def getitem_def a b r1 f1 r2 f2 r3 f3
        py_int_nonneg[OF nn])
qed

lemma round_double_rel:
  assumes "x = 0 \<or> 2 powi (- 1022) \<le> x"
  shows "x * (1 - 1 / 2 ^ 53) \<le> round_double x \<and> round_double x \<le> x * (1 + 1 / 2 ^ 53)"
proof (cases "x = 0")
  case True
  then show ?thesis by (simp add: round_double_zero)
next
  case False
  then have "2 powi (- 1022) \<le> x" using assms by simp
  define d where "d = x / 2 ^ 53"
  from round_double_error[OF \<open>2 powi (- 1022) \<le> x\<close>]
  have e: "\<bar>round_double x - x\<bar> \<le> d" by (simp only: d_def)
  have "x * (1 - 1 / 2 ^ 53) = x - d" "x * (1 + 1 / 2 ^ 53) = x + d"
    by (simp_all only: d_def right_diff_distrib distrib_left mult_1_right times_divide_eq_right)
  moreover have "x - d \<le> round_double x" "round_double x \<le> x + d"
    using e by (simp_all only: abs_le_iff) linarith+
  ultimately show ?thesis by (simp only:)
qed


lemma tiny_le_quarter: "(2::rat) powi (- 1022) \<le> 1 / 2 ^ 70"
proof -
  have "(2::rat) powi (- 1022) \<le> 2 powi (- 70)" by (rule two_powi_mono) simp
  also have "(2::rat) powi (- 70) = 1 / 2 ^ 70" by (simp add: power_int_minus_divide)
  finally show ?thesis .
qed

lemma tiny_le: "1 / 2 ^ 70 \<le> c \<Longrightarrow> (2::rat) powi (- 1022) \<le> c"
  by (rule order_trans[OF tiny_le_quarter])

lemma level_converter_general:
  assumes A: "A < length (level_downsamples w)" and B: "B < length (level_downsamples w)"
    and a: "level_downsamples w ! A = a" and b: "level_downsamples w ! B = b"
    and a1: "1 \<le> a" and a2: "a \<le> 2 ^ 64" and b1: "1 \<le> b" and b2: "b \<le> 2 ^ 64"
    and x0: "0 \<le> x" and x2: "(of_int x :: rat) < 2 ^ 200"
  shows "\<exists>y. level_converter w x A B = Inr y \<and> 0 \<le> y \<and>
           of_int y \<le> of_int x * a / b * (1 + 1 / 2 ^ 53) ^ 3 \<and>
           of_int x * a / b * (1 - 1 / 2 ^ 53) ^ 3 - 1 < of_int y"
proof (cases "x = 0")
  case True
  have "level_converter w 0 A B = Inr 0"
    using A B b1
    by (simp add: level_converter_def getitem_def a b round_double_zero finite_double_def
        py_int_def)
  then show ?thesis using True by simp
next
  case False
  define E :: rat where "E = 1 / 2 ^ 53"
  define X :: rat where "X = of_int x"
  have E0: "0 < E" and E1: "E \<le> 1 / 2" by (simp_all add: E_def)
  have hi0: "0 \<le> 1 + E" and lo0: "0 \<le> 1 - E" and hi2: "1 + E \<le> 2" and lo2: "1 / 2 \<le> 1 - E"
    using E0 E1 by simp_all
  have "1 \<le> x" using False x0 by linarith
  then have X1: "1 \<le> X" by (simp add: X_def)
  have bpos: "0 < b" and apos: "0 < a" using a1 b1 by simp_all
  note tiny = tiny_le_quarter
  \<comment> \<open>the conversion of the integer\<close>
  define xf where "xf = round_double X"
  have "1 / 2 ^ 70 \<le> X" by (rule order_trans[OF _ X1]) simp
  then have "2 powi (- 1022) \<le> X" by (rule tiny_le)
  from round_double_rel[OF disjI2, OF this]
  have xf: "X * (1 - E) \<le> xf" "xf \<le> X * (1 + E)" by (simp_all add: E_def xf_def)
  have xf_lo: "1 / 2 \<le> xf"
  proof -
    have "1 * (1 / 2) \<le> X * (1 - E)" using X1 lo2 by (intro mult_mono) simp_all
    then show ?thesis using xf(1) by simp
  qed
  have xf_hi: "xf < 2 ^ 201"
  proof -
    have "X * (1 + E) \<le> X * 2" using hi2 X1 by (intro mult_left_mono) simp_all
    then have "xf \<le> X * 2" using xf(2) by (rule order_trans[rotated])
    then show ?thesis using x2 by (simp add: X_def)
  qed
  \<comment> \<open>the product\<close>
  define m where "m = round_double (xf * a)"
  have "1 / 2 * 1 \<le> xf * a" using xf_lo a1 by (intro mult_mono) simp_all
  then have p1_lo: "1 / 2 \<le> xf * a" by simp
  have "1 / 2 ^ 70 \<le> xf * a" by (rule order_trans[OF _ p1_lo]) simp
  then have "2 powi (- 1022) \<le> xf * a" by (rule tiny_le)
  from round_double_rel[OF disjI2, OF this]
  have m: "xf * a * (1 - E) \<le> m" "m \<le> xf * a * (1 + E)" by (simp_all add: E_def m_def)
  have m_lo: "1 / 4 \<le> m"
  proof -
    have "1 / 2 * (1 / 2) \<le> xf * a * (1 - E)" using p1_lo lo2 by (intro mult_mono) simp_all
    then show ?thesis using m(1) by simp
  qed
  have m_up: "m \<le> X * a * (1 + E) ^ 2"
  proof -
    have s1: "xf * a \<le> X * (1 + E) * a"
      by (rule mult_right_mono[OF xf(2)]) (use apos in simp)
    have s2: "xf * a * (1 + E) \<le> X * (1 + E) * a * (1 + E)"
      by (rule mult_right_mono[OF s1 hi0])
    have eq: "X * (1 + E) * a * (1 + E) = X * a * (1 + E) ^ 2"
      by (simp add: power2_eq_square)
    from order_trans[OF m(2) s2] show ?thesis by (simp only: eq)
  qed
  have m_dn: "X * a * (1 - E) ^ 2 \<le> m"
  proof -
    have s1: "X * (1 - E) * a \<le> xf * a"
      by (rule mult_right_mono[OF xf(1)]) (use apos in simp)
    have s2: "X * (1 - E) * a * (1 - E) \<le> xf * a * (1 - E)"
      by (rule mult_right_mono[OF s1 lo0])
    have eq: "X * (1 - E) * a * (1 - E) = X * a * (1 - E) ^ 2"
      by (simp add: power2_eq_square)
    from order_trans[OF s2 m(1)] show ?thesis by (simp only: eq)
  qed
  have m_hi: "m < 2 ^ 267"
  proof -
    have h1: "xf * a \<le> 2 ^ 201 * 2 ^ 64"
      by (rule mult_mono[OF less_imp_le[OF xf_hi] a2]) (use apos in simp_all)
    have h2: "xf * a * (1 + E) \<le> 2 ^ 201 * 2 ^ 64 * 2"
      by (rule mult_mono[OF h1 hi2]) (use hi0 in simp_all)
    have h3: "(2::rat) ^ 201 * 2 ^ 64 * 2 < 2 ^ 267" by simp
    show ?thesis by (rule le_less_trans[OF order_trans[OF m(2) h2] h3])
  qed
  \<comment> \<open>the quotient\<close>
  define q where "q = round_double (m / b)"
  have p2_lo: "1 / 2 ^ 66 \<le> m / b"
  proof -
    have "1 / 4 / 2 ^ 64 \<le> m / b"
      using m_lo b2 bpos by (intro frac_le) simp_all
    then show ?thesis by simp
  qed
  have "1 / 2 ^ 70 \<le> m / b" by (rule order_trans[OF _ p2_lo]) simp
  then have "2 powi (- 1022) \<le> m / b" by (rule tiny_le)
  from round_double_rel[OF disjI2, OF this]
  have q: "m / b * (1 - E) \<le> q" "q \<le> m / b * (1 + E)" by (simp_all add: E_def q_def)
  have q0: "0 \<le> q"
  proof -
    have "0 \<le> m / b * (1 - E)" using m_lo bpos lo0 by simp
    then show ?thesis using q(1) by simp
  qed
  have q_up: "q \<le> X * a / b * (1 + E) ^ 3"
  proof -
    have t1: "m / b \<le> X * a * (1 + E) ^ 2 / b"
      by (rule divide_right_mono[OF m_up]) (use bpos in simp)
    have t2: "m / b * (1 + E) \<le> X * a * (1 + E) ^ 2 / b * (1 + E)"
      by (rule mult_right_mono[OF t1 hi0])
    have eq: "X * a * (1 + E) ^ 2 / b * (1 + E) = X * a / b * (1 + E) ^ 3"
      by (simp add: power2_eq_square power3_eq_cube)
    from order_trans[OF q(2) t2] show ?thesis by (simp only: eq)
  qed
  have q_dn: "X * a / b * (1 - E) ^ 3 \<le> q"
  proof -
    have t1: "X * a * (1 - E) ^ 2 / b \<le> m / b"
      by (rule divide_right_mono[OF m_dn]) (use bpos in simp)
    have t2: "X * a * (1 - E) ^ 2 / b * (1 - E) \<le> m / b * (1 - E)"
      by (rule mult_right_mono[OF t1 lo0])
    have eq: "X * a * (1 - E) ^ 2 / b * (1 - E) = X * a / b * (1 - E) ^ 3"
      by (simp add: power2_eq_square power3_eq_cube)
    from order_trans[OF t2 q(1)] show ?thesis by (simp only: eq)
  qed
  have q_hi: "q < 2 ^ 269"
  proof -
    have m0: "0 \<le> m" using m_lo by simp
    have "m / b \<le> m / 1" using b1 m0 by (intro divide_left_mono) simp_all
    then have "m / b \<le> m" by simp
    then have h0: "m / b \<le> 2 ^ 267" using m_hi by (rule le_less_trans[THEN less_imp_le])
    have h1: "m / b * (1 + E) \<le> 2 ^ 267 * 2"
      by (rule mult_mono[OF h0 hi2]) (use hi0 in simp_all)
    have h3: "(2::rat) ^ 267 * 2 < 2 ^ 269" by simp
    show ?thesis by (rule le_less_trans[OF order_trans[OF q(2) h1] h3])
  qed
  have big: "(2::rat) ^ 201 < 2 ^ 1024" "(2::rat) ^ 267 < 2 ^ 1024" "(2::rat) ^ 269 < 2 ^ 1024"
    by simp_all
  have "\<bar>xf\<bar> = xf" "\<bar>m\<bar> = m" "\<bar>q\<bar> = q" using xf_lo m_lo q0 by simp_all
  then have "\<bar>xf\<bar> < 2 ^ 1024" "\<bar>m\<bar> < 2 ^ 1024" "\<bar>q\<bar> < 2 ^ 1024"
    using less_trans[OF xf_hi big(1)] less_trans[OF m_hi big(2)] less_trans[OF q_hi big(3)]
    by (simp_all only:)
  then have f1: "finite_double xf = Inr xf" and f2: "finite_double m = Inr m"
    and f3: "finite_double q = Inr q"
    by (simp_all only: finite_double_small)
  have bne: "b \<noteq> 0" using bpos by simp
  have conv: "level_converter w x A B = Inr \<lfloor>q\<rfloor>"
    using A B bne
    by (simp add: level_converter_def getitem_def a b f1[unfolded xf_def X_def]
        f2[unfolded m_def xf_def X_def] f3[unfolded q_def m_def xf_def X_def]
        py_int_nonneg[OF q0, unfolded q_def m_def xf_def X_def] q_def m_def xf_def X_def)
  have fl: "of_int \<lfloor>q\<rfloor> \<le> q" "q - 1 < of_int \<lfloor>q\<rfloor>" by linarith+
  have "0 \<le> \<lfloor>q\<rfloor>" using q0 by simp
  moreover have "of_int \<lfloor>q\<rfloor> \<le> of_int x * a / b * (1 + 1 / 2 ^ 53) ^ 3"
    using order_trans[OF fl(1) q_up] by (simp only: X_def E_def)
  moreover have "of_int x * a / b * (1 - 1 / 2 ^ 53) ^ 3 - 1 < of_int \<lfloor>q\<rfloor>"
    using fl(2) q_dn unfolding X_def E_def by linarith
  ultimately show ?thesis using conv by blast
qed

lemma cube_bounds:
  "(1 + 1 / 2 ^ 53) ^ 3 \<le> (1 + 1 / 2 ^ 51 :: rat)" "(1 - 1 / 2 ^ 51 :: rat) \<le> (1 - 1 / 2 ^ 53) ^ 3"
  "(0::rat) \<le> (1 + 1 / 2 ^ 53) ^ 3" "(0::rat) \<le> (1 - 1 / 2 ^ 53) ^ 3"
  by (simp_all add: power3_eq_cube)

lemma round_trip_general:
  assumes A: "A < length (level_downsamples w)" and B: "B < length (level_downsamples w)"
    and a1: "1 \<le> level_downsamples w ! A" and a2: "level_downsamples w ! A \<le> 2 ^ 64"
    and b1: "1 \<le> level_downsamples w ! B" and b2: "level_downsamples w ! B \<le> 2 ^ 64"
    and v0: "0 \<le> v" and v2: "v < 2 ^ 48"
  shows "\<exists>u r. level_converter w v A B = Inr u \<and> level_converter w u B A = Inr r \<and>
           r \<le> v \<and> of_int (v - r) < level_downsamples w ! B / level_downsamples w ! A + 2"
proof -
  define a where "a = level_downsamples w ! A"
  define b where "b = level_downsamples w ! B"
  define H :: rat where "H = (1 + 1 / 2 ^ 53) ^ 3"
  define L :: rat where "L = (1 - 1 / 2 ^ 53) ^ 3"
  define d :: rat where "d = 1 / 2 ^ 51"
  define V :: rat where "V = of_int v"
  define W where "W = V * d"
  have a1': "1 \<le> a" and a2': "a \<le> 2 ^ 64" and b1': "1 \<le> b" and b2': "b \<le> 2 ^ 64"
    using a1 a2 b1 b2 by (simp_all add: a_def b_def)
  have apos: "0 < a" and bpos: "0 < b" using a1' b1' by simp_all
  have Hd: "H \<le> 1 + d" and Ld: "1 - d \<le> L" and H0: "0 \<le> H" and L0: "0 \<le> L"
    using cube_bounds by (simp_all only: H_def L_def d_def)
  have d0: "0 \<le> d" and d1: "d \<le> 1" by (simp_all add: d_def)
  have V0: "0 \<le> V" using v0 by (simp add: V_def)
  have "(of_int v :: rat) < 2 ^ 48" using v2 by (metis of_int_less_numeral_power_cancel_iff)
  then have V2: "V < 2 ^ 48" by (simp add: V_def)
  have W0: "0 \<le> W" using V0 d0 by (simp add: W_def)
  have W8: "W < 1 / 8"
  proof -
    have "V * d < 2 ^ 48 * (1 / 2 ^ 51)" unfolding d_def using V2 by (intro mult_strict_right_mono) simp_all
    also have "(2::rat) ^ 48 * (1 / 2 ^ 51) = 1 / 8" by simp
    finally show ?thesis by (simp add: W_def)
  qed
  have Wd: "W * d \<le> W" using mult_left_mono[OF d1 W0] by simp
  \<comment> \<open>first conversion\<close>
  have "V < 2 ^ 200" by (rule less_trans[OF V2]) simp
  then have v200: "(of_int v :: rat) < 2 ^ 200" by (simp add: V_def)
  from level_converter_general[OF A B refl refl a1 a2 b1 b2 v0 v200]
  obtain u where u: "level_converter w v A B = Inr u" and u0: "0 \<le> u"
    and u_up: "of_int u \<le> V * a / b * H" and u_dn: "V * a / b * L - 1 < of_int u"
    unfolding a_def b_def H_def L_def V_def by blast
  define U :: rat where "U = of_int u"
  have U0: "0 \<le> U" using u0 by (simp add: U_def)
  \<comment> \<open>back in the frame of A: U * c against V, where c = b / a\<close>
  define c where "c = b / a"
  have c0: "0 < c" using apos bpos by (simp add: c_def)
  have Uc: "U * b / a = U * c" by (simp add: c_def)
  have eq1: "V * a / b * H * c = V * H" using apos bpos by (simp add: c_def field_simps)
  have eq1': "(V * a / b * L - 1) * c = V * L - c" using apos bpos by (simp add: c_def field_simps)
  have up1: "U * c \<le> V * a / b * H * c"
    by (rule mult_right_mono[OF u_up[folded U_def] less_imp_le[OF c0]])
  have X2_up: "U * c \<le> V * H" using up1 by (simp only: eq1)
  have VH: "V * H \<le> V * (1 + d)" by (rule mult_left_mono[OF Hd V0])
  have VW: "V * (1 + d) = V + W" by (simp add: W_def algebra_simps)
  have X2_up': "U * c \<le> V + W"
    using order_trans[OF X2_up VH] by (simp only: VW)
  have "(V * a / b * L - 1) * c < U * c"
    by (rule mult_strict_right_mono[OF u_dn[folded U_def] c0])
  then have dn1: "V * L - c < U * c" by (simp only: eq1')
  have VL: "V * (1 - d) \<le> V * L" by (rule mult_left_mono[OF Ld V0])
  have VW': "V * (1 - d) = V - W" by (simp add: W_def algebra_simps)
  have X2_dn: "V - W - c < U * c" using dn1 VL unfolding VW' by linarith
  have X20: "0 \<le> U * c" using U0 c0 by simp
  \<comment> \<open>second conversion\<close>
  have Va0: "0 \<le> V * a" using V0 apos by simp
  have "V * a / b \<le> V * a / 1" using b1' Va0 by (intro divide_left_mono) simp_all
  then have g1: "V * a / b \<le> V * a" by simp
  have g2: "V * a \<le> 2 ^ 48 * 2 ^ 64"
    by (rule mult_mono[OF less_imp_le[OF V2] a2']) (use V0 apos in simp_all)
  have H2: "H \<le> 2" using Hd d1 by linarith
  have g3: "V * a / b * H \<le> 2 ^ 48 * 2 ^ 64 * 2"
    by (rule mult_mono[OF order_trans[OF g1 g2] H2]) (use H0 in simp_all)
  have g4: "(2::rat) ^ 48 * 2 ^ 64 * 2 < 2 ^ 200" by simp
  have "U < 2 ^ 200"
    by (rule le_less_trans[OF order_trans[OF u_up[folded U_def] g3] g4])
  then have u200: "(of_int u :: rat) < 2 ^ 200" by (simp add: U_def)
  from level_converter_general[OF B A refl refl b1 b2 a1 a2 u0 u200]
  obtain r where r: "level_converter w u B A = Inr r"
    and r_up: "of_int r \<le> U * b / a * H" and r_dn: "U * b / a * L - 1 < of_int r"
    unfolding a_def b_def H_def L_def U_def by blast
  \<comment> \<open>upper bound\<close>
  have r_up': "of_int r \<le> U * c * H" and r_dn': "U * c * L - 1 < of_int r"
    using r_up r_dn by (simp_all only: Uc)
  have s1: "U * c * H \<le> (V + W) * H" by (rule mult_right_mono[OF X2_up' H0])
  have VW0: "0 \<le> V + W" using V0 W0 by simp
  have s2: "(V + W) * H \<le> (V + W) * (1 + d)" by (rule mult_left_mono[OF Hd VW0])
  have s3: "(V + W) * (1 + d) = V + 2 * W + W * d" by (simp add: W_def algebra_simps)
  have "of_int r \<le> V + 2 * W + W * d"
    using order_trans[OF r_up' order_trans[OF s1 s2]] by (simp only: s3)
  then have "of_int r < V + 1" using Wd W8 by linarith
  then have "(of_int r :: rat) < of_int (v + 1)" by (simp add: V_def)
  then have "r < v + 1" by (simp only: of_int_less_iff)
  then have rv: "r \<le> v" by simp
  \<comment> \<open>lower bound\<close>
  have t1: "U * c * (1 - d) \<le> U * c * L" by (rule mult_left_mono[OF Ld X20])
  have t2: "U * c * (1 - d) = U * c - U * c * d" by (simp add: algebra_simps)
  have t3: "U * c * d \<le> (V + W) * d" by (rule mult_right_mono[OF X2_up' d0])
  have t4: "(V + W) * d = W + W * d" by (simp add: W_def algebra_simps)
  have "V - of_int r < c + 2"
    using t1 r_dn' t3 X2_dn Wd W8 unfolding t2 t4 by linarith
  then have "of_int (v - r) < b / a + 2" by (simp add: V_def c_def)
  then show ?thesis using u r rv unfolding a_def b_def by blast
qed


lemma round_trip_dyadic:
  assumes A: "A < length (level_downsamples w)" and B: "B < length (level_downsamples w)"
    and a: "level_downsamples w ! A = 2 ^ ma" and b: "level_downsamples w ! B = 2 ^ mb"
    and ma: "ma \<le> 64" and mb: "mb \<le> 64" and v0: "0 \<le> v" and v2: "v < 2 ^ 48"
  defines "u \<equiv> \<lfloor>of_int v * level_downsamples w ! A / level_downsamples w ! B\<rfloor>"
  shows "level_converter w v A B = Inr u"
    and "level_converter w u B A =
           Inr \<lfloor>of_int u * level_downsamples w ! B / level_downsamples w ! A\<rfloor>"
proof -
  have v53: "\<bar>v\<bar> < 2 ^ 53"
  proof -
    have "(2::int) ^ 48 < 2 ^ 53" by simp
    then show ?thesis using v0 v2 by linarith
  qed
  show "level_converter w v A B = Inr u"
    unfolding u_def
    by (rule level_converter_dyadic[OF A B a b ma mb _ v53 _ _ v0, of 0]) simp_all
  have u0: "0 \<le> u" using v0 by (simp add: u_def a b)
  have "\<exists>n k. (of_int u :: rat) = of_int n * 2 powi k \<and> \<bar>n\<bar> < 2 ^ 53 \<and> 0 \<le> k \<and> k \<le> 64"
  proof (cases "mb \<le> ma")
    case True
    have "(of_int v :: rat) * 2 ^ ma / 2 ^ mb = of_int v * 2 ^ (ma - mb)"
      using True by (simp add: power_diff)
    also have "\<dots> = of_int (v * 2 ^ (ma - mb))" by simp
    finally have "u = v * 2 ^ (ma - mb)" unfolding u_def a b by (simp only: floor_of_int)
    then have "(of_int u :: rat) = of_int v * 2 powi (int (ma - mb))" by simp
    moreover have "int (ma - mb) \<le> 64" using ma by simp
    ultimately show ?thesis using v53 by (intro exI[of _ v] exI[of _ "int (ma - mb)"]) simp
  next
    case False
    then have "(2::rat) ^ ma \<le> 2 ^ mb" by (intro power_increasing) simp_all
    then have "(of_int v :: rat) * 2 ^ ma / 2 ^ mb \<le> of_int v"
      using v0 by (simp add: field_simps mult_left_mono)
    then have "u \<le> v" unfolding u_def a b by (simp add: floor_le_iff)
    then have "\<bar>u\<bar> < 2 ^ 53" using u0 v53 v0 by linarith
    then show ?thesis by (intro exI[of _ u] exI[of _ 0]) simp
  qed
  then obtain n k where nk: "(of_int u :: rat) = of_int n * 2 powi k" "\<bar>n\<bar> < 2 ^ 53"
    "0 \<le> k" "k \<le> 64" by blast
  show "level_converter w u B A =
           Inr \<lfloor>of_int u * level_downsamples w ! B / level_downsamples w ! A\<rfloor>"
    by (rule level_converter_dyadic[OF B A b a mb ma nk u0])
qed

subsection \<open>Outcomes of the methods\<close>

lemma class_c_patch_i_cases:
  assumes "class_c_patch_i self c i = Inr (r, self')"
  shows "(r = None \<and> self' = self\<lparr>rejected := rejected self + 1\<rparr>) \<or>
         (\<exists>patch info. r = Some (patch, info) \<and> info_class info = c \<and> self' = self)"
  using assms unfolding class_c_patch_i_def
  by (auto simp: and_then_Inr_iff Let_def split: option.splits if_splits prod.splits)

lemma init_background: "init world f l0 tmd ad = Inr s \<Longrightarrow> background s = None"
  unfolding init_def
  by (auto simp: and_then_Inr_iff Let_def split: prod.splits)

lemma prepare_sampling_base: "prepare_sampling shuffle s m p = Inr self \<Longrightarrow> base self = s"
  unfolding prepare_sampling_def
  by (auto simp: and_then_Inr_iff split: option.splits prod.splits)

lemma prepare_sampling_rejected:
  "prepare_sampling shuffle s m p = Inr self \<Longrightarrow> rejected self = 0"
  unfolding prepare_sampling_def
  by (auto simp: and_then_Inr_iff split: option.splits prod.splits)

lemma py_getitem_in_range:
  "- int (length xs) \<le> i \<Longrightarrow> i < int (length xs) \<Longrightarrow> \<exists>x. py_getitem xs i = Inr x"
  by (auto simp: py_getitem_def Let_def)

lemma py_getitem_beyond: "int (length xs) \<le> i \<Longrightarrow> py_getitem xs i = Inl IndexError"
  by (auto simp: py_getitem_def Let_def)

lemma fraction_le_iff:
  assumes "0 < q"
  shows "((of_nat n / of_int q :: rat) \<le> 9 / 10) = (10 * int n \<le> 9 * q)"
proof -
  have q: "(0::rat) < of_int q" using assms by simp
  have "((of_nat n / of_int q :: rat) \<le> 9 / 10) = ((of_nat n :: rat) \<le> 9 / 10 * of_int q)"
    using q by (simp add: pos_divide_le_eq)
  also have "\<dots> = ((of_int (10 * int n) :: rat) \<le> of_int (9 * q))"
    by (simp add: mult.commute)
  also have "\<dots> = (10 * int n \<le> 9 * q)" by (simp only: of_int_le_iff)
  finally show ?thesis .
qed

lemma extraction_calls_rejected:
  "rejected (fst (extraction_calls self calls)) = rejected self + snd (extraction_calls self calls)"
proof (induction calls arbitrary: self)
  case Nil
  then show ?case by simp
next
  case (Cons call calls)
  obtain c i where call: "call = (c, i)" by (cases call)
  show ?case
  proof (cases "class_c_patch_i self c i")
    case (Inl e)
    then show ?thesis using Cons.IH[of self] call by simp
  next
    case (Inr res)
    obtain r self' where res: "res = (r, self')" by (cases res)
    from class_c_patch_i_cases[OF Inr[unfolded res]]
    show ?thesis
    proof
      assume "r = None \<and> self' = self\<lparr>rejected := rejected self + 1\<rparr>"
      then show ?thesis using Cons.IH[of self'] Inr res call
        by (auto split: prod.splits)
    next
      assume "\<exists>patch info. r = Some (patch, info) \<and> info_class info = c \<and> self' = self"
      then show ?thesis using Cons.IH[of self'] Inr res call by auto
    qed
  qed
qed

subsection \<open>The concrete slides, evaluated\<close>

lemma init_plain:
  "init plain_world ''slide.tif'' (Given 40) ''tm'' None = Inr plain_sampler"
  by (simp add: init_def plain_world_def plain_sampler_def two_level_slide_def full_mask_def
      index_def getitem_def Let_def)

lemma get_level_plain: "get_level [40, 10] 40 (1 / 100) = Some 0"
  by (simp add: get_level_def val_in_list_def)

lemma nonzero_full_mask: "nonzero full_mask = [(0, 0), (0, 1), (1, 0), (1, 1)]"
  by code_simp

lemma two_level_factors:
  "level_downsamples two_level_slide ! 0 = 2 ^ 0" "level_downsamples two_level_slide ! 1 = 2 ^ 2"
  "length (level_downsamples two_level_slide) = 2"
  by (simp_all add: two_level_slide_def)

lemma level_converter_two_level_7: "level_converter two_level_slide 7 0 1 = Inr 1"
  using round_trip_dyadic(1)[of 0 two_level_slide 1 0 2 7]
  by (simp add: two_level_factors) (simp add: two_level_slide_def floor_eq_iff)

lemma level_converter_two_level_1: "level_converter two_level_slide 1 1 0 = Inr 4"
  using round_trip_dyadic(1)[of 1 two_level_slide 0 2 0 1]
  by (simp add: two_level_factors) (simp add: two_level_slide_def)

lemma level_converter_two_level_2:
  "level_converter two_level_slide 2 0 1 = Inr 0"
  "level_converter two_level_slide 2 0 (Suc 0) = Inr 0"
  using round_trip_dyadic(1)[of 0 two_level_slide 1 0 2 2]
  by (simp_all add: two_level_factors) (simp_all add: two_level_slide_def floor_eq_iff)

lemma prepare_plain: "prepare_sampling rev plain_sampler 40 2 = Inr plain_session"
  by (simp add: prepare_sampling_def plain_sampler_def plain_session_def get_level_plain
      getitem_def level_converter_two_level_2 py_int_def
      get_classes_and_seeds_def nonzero_full_mask floor_eq_iff)
    (simp add: two_level_slide_def)

lemma slice_sum_wide_left: "slice_sum (bg_data wide_background) 0 0 10 = 90"
  by code_simp

lemma slice_sum_wide_right: "slice_sum (bg_data wide_background) 0 10 10 = 100"
  by code_simp

lemma wide_background_fields:
  "bg_level wide_background = 1" "bg_patchsize wide_background = 10"
  by (simp_all add: wide_background_def)

lemma wide_factors:
  "level_downsamples wide_slide ! 0 = 2 ^ 0" "level_downsamples wide_slide ! 1 = 2 ^ 2"
  "length (level_downsamples wide_slide) = 2"
  by (simp_all add: wide_slide_def)

lemma level_converter_wide_0:
  "level_converter wide_slide 0 0 1 = Inr 0"
  "level_converter wide_slide 0 0 (Suc 0) = Inr 0"
  using round_trip_dyadic(1)[of 0 wide_slide 1 0 2 0]
  by (simp_all add: wide_factors) (simp_all add: wide_slide_def)

lemma level_converter_wide_40:
  "level_converter wide_slide 40 0 1 = Inr 10"
  "level_converter wide_slide 40 0 (Suc 0) = Inr 10"
  using round_trip_dyadic(1)[of 0 wide_slide 1 0 2 40]
  by (simp_all add: wide_factors) (simp_all add: wide_slide_def floor_eq_iff)

lemmas wide_unfold =
  class_c_patch_i_def wide_session_def wide_sampler_def index_def getitem_def
  py_getitem_def level_converter_wide_0 level_converter_wide_40 Let_def wide_background_fields

lemma wide_origin_rejected:
  "class_c_patch_i wide_session 0 0 = Inr (None, wide_session\<lparr>rejected := 1\<rparr>)"
  by (simp add: wide_unfold slice_sum_wide_left)

lemma wide_second_accepted:
  "\<exists>patch info. class_c_patch_i wide_session 0 1 = Inr (Some (patch, info), wide_session)"
  by (simp add: wide_unfold slice_sum_wide_right)

section \<open>Level resolver\<close>

text \<open>
  Claim C3 states that converting a non-negative value from level A to level B and back
  yields a value within 1 of the original, for all levels. On the two-level slide the
  value 7 goes from level 0 to level 1 as \<open>int(7 * 1.0 / 4.0) = 1\<close> and comes back as
  \<open>int(1 * 4.0 / 1.0) = 4\<close>, which is 3 away from 7. Every operation of this example is
  exact in doubles.
\<close>

theorem level_converter_round_trip_counterexample:
  "level_converter two_level_slide 7 0 1 = Inr 1 \<and>
   level_converter two_level_slide 1 1 0 = Inr 4 \<and> \<not> \<bar>(4::int) - 7\<bar> \<le> 1"
  by (simp only: level_converter_two_level_7 level_converter_two_level_1) simp

text \<open>
  Claim C3, amended: for valid levels A and B whose downsample factors lie between 1 and
  \<open>2^64\<close> and a value \<open>v\<close> with \<open>0 \<le> v < 2^48\<close>, both conversions succeed, the value \<open>r\<close>
  that comes back never exceeds \<open>v\<close>, and \<open>v - r\<close> is less than
  \<open>downsample[B] / downsample[A] + 2\<close>: the two truncations lose up to the ratio of the
  factors plus one, and the rounding of the six double operations can cost one more. When
  both factors are powers of two, as in a dyadic pyramid, the arithmetic is exact:
  \<open>v - r\<close> is less than \<open>downsample[B] / downsample[A] + 1\<close>, and the round trip is within 1
  of \<open>v\<close> whenever level B is no coarser than level A.
\<close>

theorem level_converter_round_trip:
  assumes A: "A < length (level_downsamples w)" and B: "B < length (level_downsamples w)"
    and a1: "1 \<le> level_downsamples w ! A" and a2: "level_downsamples w ! A \<le> 2 ^ 64"
    and b1: "1 \<le> level_downsamples w ! B" and b2: "level_downsamples w ! B \<le> 2 ^ 64"
    and v0: "0 \<le> v" and v2: "v < 2 ^ 48"
  shows "\<exists>u r. level_converter w v A B = Inr u \<and> level_converter w u B A = Inr r \<and>
           r \<le> v \<and>
           of_int (v - r) < level_downsamples w ! B / level_downsamples w ! A + 2 \<and>
           ((\<exists>ma mb. level_downsamples w ! A = 2 ^ ma \<and> level_downsamples w ! B = 2 ^ mb) \<longrightarrow>
              of_int (v - r) < level_downsamples w ! B / level_downsamples w ! A + 1 \<and>
              (level_downsamples w ! B \<le> level_downsamples w ! A \<longrightarrow> v - r \<le> 1))"
proof -
  define a where "a = level_downsamples w ! A"
  define b where "b = level_downsamples w ! B"
  from round_trip_general[OF assms] obtain u r where
    u: "level_converter w v A B = Inr u" and r: "level_converter w u B A = Inr r"
    and rv: "r \<le> v" and gen: "of_int (v - r) < b / a + 2"
    unfolding a_def b_def by blast
  have apos: "0 < a" and bpos: "0 < b" using a1 b1 by (simp_all add: a_def b_def)
  have dy: "of_int (v - r) < b / a + 1 \<and> (b \<le> a \<longrightarrow> v - r \<le> 1)"
    if pw: "a = 2 ^ ma" "b = 2 ^ mb" for ma mb
  proof -
    have pa: "(2::rat) ^ ma \<le> 2 ^ 64" using a2 by (simp only: pw(1)[unfolded a_def])
    have pb: "(2::rat) ^ mb \<le> 2 ^ 64" using b2 by (simp only: pw(2)[unfolded b_def])
    have ma: "ma \<le> 64" by (rule power_le_imp_le_exp[OF _ pa]) simp
    have mb: "mb \<le> 64" by (rule power_le_imp_le_exp[OF _ pb]) simp
    note d = round_trip_dyadic[OF A B pw[unfolded a_def b_def] ma mb v0 v2]
    have u': "u = \<lfloor>of_int v * a / b\<rfloor>" using u d(1) by (simp add: a_def b_def)
    have r': "r = \<lfloor>of_int u * b / a\<rfloor>" using r d(2) by (simp add: a_def b_def u')
    have lt: "of_int (v - r) < b / a + 1"
      using floor_round_trip(2)[OF apos bpos, of v] by (simp add: u' r')
    have fine: "v - r \<le> 1" if "b \<le> a"
    proof -
      have "b / a \<le> 1" using that apos by (simp add: pos_divide_le_eq)
      then have "(of_int (v - r) :: rat) < 2" using lt by linarith
      then have "v - r < 2" by linarith
      then show ?thesis by simp
    qed
    show ?thesis using lt fine by blast
  qed
  show ?thesis using u r rv gen dy unfolding a_def b_def by blast
qed

text \<open>
  The amended claim at work: from level 1 to the finer level 0 and back, 7 is recovered
  within 1.
\<close>

theorem level_converter_round_trip_witness:
  "1 < length (level_downsamples two_level_slide) \<and>
   1 \<le> level_downsamples two_level_slide ! 1 \<and> level_downsamples two_level_slide ! 1 \<le> 2 ^ 64 \<and>
   1 \<le> level_downsamples two_level_slide ! 0 \<and> level_downsamples two_level_slide ! 0 \<le> 2 ^ 64 \<and>
   (0::int) \<le> 7 \<and> (7::int) < 2 ^ 48 \<and>
   (\<exists>u r. level_converter two_level_slide 7 1 0 = Inr u \<and>
          level_converter two_level_slide u 0 1 = Inr r \<and> r \<le> 7 \<and> 7 - r \<le> 1)"
proof -
  have h: "1 < length (level_downsamples two_level_slide)"
    "0 < length (level_downsamples two_level_slide)"
    "1 \<le> level_downsamples two_level_slide ! 1" "level_downsamples two_level_slide ! 1 \<le> 2 ^ 64"
    "1 \<le> level_downsamples two_level_slide ! 0" "level_downsamples two_level_slide ! 0 \<le> 2 ^ 64"
    by (simp_all add: two_level_slide_def)
  have pw: "\<exists>ma mb. level_downsamples two_level_slide ! 1 = 2 ^ ma \<and>
                  level_downsamples two_level_slide ! 0 = 2 ^ mb"
    using two_level_factors(1,2) by blast
  have le: "level_downsamples two_level_slide ! 0 \<le> level_downsamples two_level_slide ! 1"
    by (simp add: two_level_slide_def)
  have v: "(0::int) \<le> 7" "(7::int) < 2 ^ 48" by simp_all
  from level_converter_round_trip[OF h(1) h(2) h(3) h(4) h(5) h(6) v] pw le
  have "\<exists>u r. level_converter two_level_slide 7 1 0 = Inr u \<and>
          level_converter two_level_slide u 0 1 = Inr r \<and> r \<le> 7 \<and> 7 - r \<le> 1"
    by blast
  then show ?thesis using h v by blast
qed

text \<open>
  Claim C7: for every target magnification and tolerance, \<open>get_level\<close> either returns
  \<open>None\<close> (after printing its warning; it does not raise) or returns the index of a level
  whose magnification differs from the target by at most the tolerance. The selection
  itself is made by \<open>val_in_list\<close>, modelled from the specification.
\<close>

theorem get_level_within_tolerance:
  "get_level mags magnification tol = None \<or>
   (\<exists>idx. get_level mags magnification tol = Some idx \<and> idx < length mags \<and>
          \<bar>mags ! idx - magnification\<bar> \<le> tol)"
proof (cases "filter (\<lambda>n. \<bar>mags ! n - magnification\<bar> \<le> tol) [0..<length mags]")
  case Nil
  then show ?thesis by (simp add: get_level_def val_in_list_def)
next
  case (Cons n ns)
  then have "n \<in> set (filter (\<lambda>n. \<bar>mags ! n - magnification\<bar> \<le> tol) [0..<length mags])"
    by simp
  then have "n < length mags \<and> \<bar>mags ! n - magnification\<bar> \<le> tol" by simp
  then show ?thesis using Cons by (simp add: get_level_def val_in_list_def)
qed

section \<open>Patch extractor\<close>

text \<open>
  Claim C2 states that the extractor measures the coverage of the patch on the tissue mask
  computed at construction. The source reads \<open>self.background\<close> instead, an attribute that
  neither \<open>__init__\<close> nor \<open>prepare_sampling\<close> assigns, while the patch size converted to
  the tissue-mask frame (\<open>ps_tm\<close>) is computed and never used. So on every sampler built
  and prepared by the class itself, every request for an existing seed raises
  \<open>AttributeError\<close> before any coverage is computed.
\<close>

theorem class_c_patch_i_background_unset:
  assumes "init world f l0 tmd ad = Inr s"
    and "prepare_sampling shuffle s m p = Inr self"
    and "index (class_list self) c = Inr idx"
    and "getitem (class_seeds self) idx = Inr pool"
    and "- int (length pool) \<le> i" and "i < int (length pool)"
  shows "class_c_patch_i self c i = Inl AttributeError"
proof -
  have "background (base self) = None"
    using assms(1,2) by (simp add: init_background prepare_sampling_base)
  moreover obtain hw where "py_getitem pool i = Inr hw"
    using py_getitem_in_range[OF assms(5,6)] by blast
  ultimately show ?thesis
    using assms(3,4) by (simp add: class_c_patch_i_def Let_def split: prod.splits)
qed

text \<open>
  The plain world: a cached mask that is tissue everywhere, no annotation, level 0 at 40X,
  patch size 2. The first seed of class 0 cannot be extracted.
\<close>

theorem class_c_patch_i_background_unset_witness:
  "init plain_world ''slide.tif'' (Given 40) ''tm'' None = Inr plain_sampler \<and>
   prepare_sampling rev plain_sampler 40 2 = Inr plain_session \<and>
   index (class_list plain_session) 0 = Inr 0 \<and>
   getitem (class_seeds plain_session) 0 = Inr [(4, 4), (4, 0), (0, 4), (0, 0)] \<and>
   class_c_patch_i plain_session 0 0 = Inl AttributeError"
  using class_c_patch_i_background_unset [of plain_world "''slide.tif''" "Given 40" "''tm''" None
      plain_sampler rev 40 2 plain_session 0 0 "[(4, 4), (4, 0), (0, 4), (0, 0)]" 0]
  by (simp add: init_plain prepare_plain) (simp add: plain_session_def index_def getitem_def)

text \<open>
  Claim C5 states that a patch whose sub-region is exactly 90% foreground is accepted. The
  window at the origin of the wide raster holds 90 true cells out of 100, and the
  extractor rejects the seed and counts the rejection.
\<close>

theorem coverage_exactly_90_percent_counterexample:
  "slice_sum (bg_data wide_background) 0 0 10 = 90 \<and> (bg_patchsize wide_background)\<^sup>2 = 100 \<and>
   class_c_patch_i wide_session 0 0 = Inr (None, wide_session\<lparr>rejected := 1\<rparr>)"
  by (simp add: slice_sum_wide_left wide_origin_rejected wide_background_fields)

text \<open>
  Claim C5, amended: the requirement is strict. With the raster that the check reads
  assigned, no annotation, an existing seed and a patch size other than zero, the seed is
  rejected (and the rejection counted) exactly when the number of true cells of the window
  divided by the square of the patch size is at most \<open>0.9\<close>, and accepted exactly when
  that fraction is greater than \<open>0.9\<close>. A window at exactly 90% is rejected, as is one at
  89.99%.
\<close>

theorem coverage_threshold:
  assumes bg: "background (base self) = Some bg"
    and ann: "annotation (base self) = None"
    and idx: "index (class_list self) c = Inr idx"
    and pool: "getitem (class_seeds self) idx = Inr pool"
    and seed: "py_getitem pool i = Inr (h, w)"
    and ci: "level_converter (wsi (base self)) h 0 (bg_level bg) = Inr i'"
    and cj: "level_converter (wsi (base self)) w 0 (bg_level bg) = Inr j'"
    and p: "bg_patchsize bg \<noteq> 0"
  shows "(class_c_patch_i self c i = Inr (None, self\<lparr>rejected := rejected self + 1\<rparr>) \<longleftrightarrow>
            (of_nat (slice_sum (bg_data bg) i' j' (bg_patchsize bg)) /
               of_int ((bg_patchsize bg)\<^sup>2) :: rat) \<le> 9 / 10) \<and>
         ((\<exists>patch info. class_c_patch_i self c i = Inr (Some (patch, info), self)) \<longleftrightarrow>
            (of_nat (slice_sum (bg_data bg) i' j' (bg_patchsize bg)) /
               of_int ((bg_patchsize bg)\<^sup>2) :: rat) > 9 / 10)"
proof -
  have q: "0 < (bg_patchsize bg)\<^sup>2" using p by simp
  note fr = fraction_le_iff[OF q, of "slice_sum (bg_data bg) i' j' (bg_patchsize bg)"]
  show ?thesis
  proof (cases "10 * int (slice_sum (bg_data bg) i' j' (bg_patchsize bg)) \<le> 9 * (bg_patchsize bg)\<^sup>2")
    case True
    then have "class_c_patch_i self c i = Inr (None, self\<lparr>rejected := rejected self + 1\<rparr>)"
      using bg ann idx pool seed ci cj by (simp add: class_c_patch_i_def Let_def)
    then show ?thesis using True fr by simp
  next
    case False
    then have "\<exists>patch info. class_c_patch_i self c i = Inr (Some (patch, info), self)"
      using bg ann idx pool seed ci cj by (simp add: class_c_patch_i_def Let_def)
    then show ?thesis using False fr by auto
  qed
qed

text \<open>The amended claim at the boundary: the fraction is exactly \<open>9 / 10\<close>, the seed is rejected.\<close>

theorem coverage_threshold_witness:
  "background (base wide_session) = Some wide_background \<and>
   annotation (base wide_session) = None \<and>
   py_getitem [(0, 0), (0, 40), (0::int, 40::int)] 0 = Inr (0, 0) \<and>
   level_converter (wsi (base wide_session)) 0 0 (bg_level wide_background) = Inr 0 \<and>
   (of_nat (slice_sum (bg_data wide_background) 0 0 (bg_patchsize wide_background)) /
      of_int ((bg_patchsize wide_background)\<^sup>2) :: rat) = 9 / 10 \<and>
   class_c_patch_i wide_session 0 0 =
     Inr (None, wide_session\<lparr>rejected := rejected wide_session + 1\<rparr>)"
proof -
  have h1: "background (base wide_session) = Some wide_background"
    and h2: "annotation (base wide_session) = None"
    and h3: "index (class_list wide_session) 0 = Inr 0"
    and h4: "getitem (class_seeds wide_session) 0 = Inr [(0, 0), (0, 40), (0, 40)]"
    by (simp_all add: wide_session_def wide_sampler_def index_def getitem_def)
  have h5: "py_getitem [(0, 0), (0, 40), (0::int, 40::int)] 0 = Inr (0, 0)"
    by (simp add: py_getitem_def)
  have h6: "level_converter (wsi (base wide_session)) 0 0 (bg_level wide_background) = Inr 0"
    by (simp add: wide_session_def wide_sampler_def wide_background_fields
        level_converter_wide_0)
  have h7: "bg_patchsize wide_background \<noteq> 0" by (simp add: wide_background_fields)
  have fr: "(of_nat (slice_sum (bg_data wide_background) 0 0 (bg_patchsize wide_background)) /
      of_int ((bg_patchsize wide_background)\<^sup>2) :: rat) = 9 / 10"
    by (simp add: wide_background_fields slice_sum_wide_left)
  from coverage_threshold [OF h1 h2 h3 h4 h5 h6 h6 h7] fr h1 h2 h5 h6
  show ?thesis by simp
qed

text \<open>
  Claim C6 states that a request for an index at or beyond the end of the pool is answered
  with a normal exhaustion signal. The pool of class 0 of the wide session has three
  seeds, and the request for index 3 raises \<open>IndexError\<close>.
\<close>

theorem class_c_patch_i_beyond_pool_counterexample:
  "length (class_seeds wide_session ! 0) = 3 \<and>
   class_c_patch_i wide_session 0 3 = Inl IndexError"
  by (simp add: class_c_patch_i_def wide_session_def index_def getitem_def py_getitem_def)

text \<open>
  Claim C6, amended: for a class of the class list, a request for an index greater than or
  equal to the length of its pool raises \<open>IndexError\<close>; the extractor has no exhaustion
  signal.
\<close>

theorem class_c_patch_i_beyond_pool:
  assumes "index (class_list self) c = Inr idx"
    and "getitem (class_seeds self) idx = Inr pool"
    and "int (length pool) \<le> i"
  shows "class_c_patch_i self c i = Inl IndexError"
  using assms by (simp add: class_c_patch_i_def py_getitem_beyond)

theorem class_c_patch_i_beyond_pool_witness:
  "index (class_list wide_session) 0 = Inr 0 \<and>
   getitem (class_seeds wide_session) 0 = Inr [(0, 0), (0, 40), (0, 40)] \<and>
   int (length [(0, 0), (0, 40), (0::int, 40::int)]) \<le> 5 \<and>
   class_c_patch_i wide_session 0 5 = Inl IndexError"
  using class_c_patch_i_beyond_pool [of wide_session 0 0 "[(0, 0), (0, 40), (0, 40)]" 5]
  by (simp add: wide_session_def index_def getitem_def)

section \<open>Rejection counter\<close>

text \<open>
  Claim C10 states that every call of the extractor returns either a rejection or an
  accepted patch. A call can also raise: class 1 is not in the class list of the wide
  session, and the request raises \<open>ValueError\<close>, returning neither.
\<close>

theorem rejected_counts_rejections_counterexample:
  "1 \<notin> set (class_list wide_session) \<and> class_c_patch_i wide_session 1 0 = Inl ValueError"
  by (simp add: class_c_patch_i_def wide_session_def index_def)

text \<open>
  Claim C10, amended: \<open>prepare_sampling\<close>, when it completes, sets the rejection counter
  to 0. Every call of the extractor that returns either returns no patch and increases
  the counter by exactly 1, changing nothing else, or returns a patch and leaves the
  object unchanged. Hence after any sequence of extraction calls, whether they return or
  raise, the counter has grown by the number of rejections, and after \<open>prepare_sampling\<close>
  it equals the number of rejections since.
\<close>

theorem rejected_counts_rejections:
  "(\<forall>self0. prepare_sampling shuffle s m p = Inr self0 \<longrightarrow>
       rejected self0 = 0 \<and>
       (\<forall>calls. rejected (fst (extraction_calls self0 calls)) = snd (extraction_calls self0 calls))) \<and>
   (\<forall>r self'. class_c_patch_i self c i = Inr (r, self') \<longrightarrow>
       (r = None \<and> self' = self\<lparr>rejected := rejected self + 1\<rparr>) \<or> (r \<noteq> None \<and> self' = self)) \<and>
   rejected (fst (extraction_calls self calls)) = rejected self + snd (extraction_calls self calls)"
proof (intro conjI allI impI)
  fix self0 assume "prepare_sampling shuffle s m p = Inr self0"
  then show r0: "rejected self0 = 0" by (rule prepare_sampling_rejected)
  fix calls
  show "rejected (fst (extraction_calls self0 calls)) = snd (extraction_calls self0 calls)"
    using extraction_calls_rejected[of self0 calls] r0 by simp
next
  fix r self' assume "class_c_patch_i self c i = Inr (r, self')"
  from class_c_patch_i_cases[OF this]
  show "(r = None \<and> self' = self\<lparr>rejected := rejected self + 1\<rparr>) \<or> (r \<noteq> None \<and> self' = self)"
    by auto
next
  show "rejected (fst (extraction_calls self calls)) = rejected self + snd (extraction_calls self calls)"
    by (rule extraction_calls_rejected)
qed

text \<open>
  The plain session starts at 0; on the wide session the first seed is rejected and
  counted, and a sequence with a rejection, an acceptance and a raising call is counted
  right.
\<close>

theorem rejected_counts_rejections_witness:
  "prepare_sampling rev plain_sampler 40 2 = Inr plain_session \<and> rejected plain_session = 0 \<and>
   class_c_patch_i wide_session 0 0 = Inr (None, wide_session\<lparr>rejected := 1\<rparr>) \<and>
   rejected (wide_session\<lparr>rejected := 1\<rparr>) = rejected wide_session + 1 \<and>
   rejected (fst (extraction_calls wide_session [(0, 0), (0, 1), (1, 0)])) =
     rejected wide_session + snd (extraction_calls wide_session [(0, 0), (0, 1), (1, 0)])"
proof -
  note t = rejected_counts_rejections [of rev plain_sampler 40 2 wide_session 0 0
      "[(0, 0), (0, 1), (1, 0)]"]
  have a: "rejected plain_session = 0" using t prepare_plain by blast
  have b: "rejected (wide_session\<lparr>rejected := 1\<rparr>) = rejected wide_session + 1"
    using t wide_origin_rejected by auto
  have c: "rejected (fst (extraction_calls wide_session [(0, 0), (0, 1), (1, 0)])) =
     rejected wide_session + snd (extraction_calls wide_session [(0, 0), (0, 1), (1, 0)])"
    using t by blast
  show ?thesis using prepare_plain a wide_origin_rejected b c by blast
qed

section \<open>Sampling loop\<close>

text \<open>
  What one pass of the inner loop does: it appends only records of its class, leaves the
  pools alone, and the records appended plus the rejections counted are exactly the seeds
  it attempted.
\<close>

lemma sample_class_spec:
  assumes "sample_class self N c j seeds frame = Inr (frame', self')"
  shows "\<exists>new. frame' = frame @ new \<and> (\<forall>r\<in>set new. info_class r = c) \<and>
           class_seeds self' = class_seeds self \<and> rejected self \<le> rejected self' \<and>
           rejected self' + length new =
             rejected self +
             (if seeds = [] then 0 else max 1 (min (length seeds) (nat (N - int j))))"
  using assms
proof (induction seeds arbitrary: self j frame)
  case Nil
  then show ?case by simp
next
  case (Cons seed seeds)
  from Cons.prems obtain r s1 where
    call: "class_c_patch_i self c (int j) = Inr (r, s1)" and
    rest: "(let frame1 = (case r of None \<Rightarrow> frame | Some (_, info) \<Rightarrow> frame @ [info])
            in if int j \<ge> N - 1 then Inr (frame1, s1)
               else sample_class s1 N c (Suc j) seeds frame1) = Inr (frame', self')"
    by (auto simp: and_then_Inr_iff)
  define frame1 where "frame1 = (case r of None \<Rightarrow> frame | Some (_, info) \<Rightarrow> frame @ [info])"
  from class_c_patch_i_cases[OF call]
  obtain new1 where f1: "frame1 = frame @ new1" and c1: "\<forall>r\<in>set new1. info_class r = c"
    and s1: "class_seeds s1 = class_seeds self"
    and n1: "rejected s1 + length new1 = rejected self + 1"
    and m1: "rejected self \<le> rejected s1"
    unfolding frame1_def by (elim disjE exE conjE) auto
  show ?case
  proof (cases "int j \<ge> N - 1")
    case True
    then have "frame' = frame1" "self' = s1" using rest by (simp_all add: frame1_def Let_def)
    moreover have "max 1 (min (length (seed # seeds)) (nat (N - int j))) = 1"
      using True by auto
    ultimately show ?thesis using f1 c1 s1 n1 m1 by auto
  next
    case False
    then have "sample_class s1 N c (Suc j) seeds frame1 = Inr (frame', self')"
      using rest by (simp add: frame1_def Let_def)
    from Cons.IH[OF this] obtain new2 where
      f2: "frame' = frame1 @ new2" and c2: "\<forall>r\<in>set new2. info_class r = c"
      and s2: "class_seeds self' = class_seeds s1"
      and m2: "rejected s1 \<le> rejected self'"
      and n2: "rejected self' + length new2 =
                 rejected s1 + (if seeds = [] then 0
                                else max 1 (min (length seeds) (nat (N - int (Suc j)))))"
      by blast
    have ar: "1 + (if seeds = [] then 0 else max 1 (min (length seeds) (nat (N - int (Suc j)))))
              = max 1 (min (length (seed # seeds)) (nat (N - int j)))"
      using False by (cases seeds) auto
    have "frame' = frame @ (new1 @ new2)" using f1 f2 by simp
    moreover have "\<forall>r\<in>set (new1 @ new2). info_class r = c" using c1 c2 by auto
    moreover have "class_seeds self' = class_seeds self" using s1 s2 by simp
    moreover have "rejected self \<le> rejected self'" using m1 m2 by simp
    moreover have "rejected self' + length (new1 @ new2) =
        rejected self + max 1 (min (length (seed # seeds)) (nat (N - int j)))"
      using n1 n2 ar by simp
    ultimately show ?thesis by (intro exI[of _ "new1 @ new2"]) simp
  qed
qed

lemma sample_class_from_start:
  assumes "sample_class self N c 0 seeds frame = Inr (frame', self')" and "1 \<le> N"
  shows "\<exists>new. frame' = frame @ new \<and> (\<forall>r\<in>set new. info_class r = c) \<and>
           class_seeds self' = class_seeds self \<and> rejected self \<le> rejected self' \<and>
           rejected self' + length new = rejected self + min (length seeds) (nat N)"
proof -
  have "(if seeds = [] then 0 else max 1 (min (length seeds) (nat (N - int 0))))
        = min (length seeds) (nat N)"
    using assms(2) by (cases seeds) auto
  then show ?thesis using sample_class_spec[OF assms(1)] by simp
qed

lemma sample_classes_spec:
  assumes "sample_classes self N i cs frame = Inr (frame', self')" and "1 \<le> N"
  shows "\<exists>new. frame' = frame @ new \<and> (\<forall>r\<in>set new. info_class r \<in> set cs) \<and>
           (distinct cs \<longrightarrow> (\<forall>c. length (filter (\<lambda>r. info_class r = c) new) \<le> nat N)) \<and>
           class_seeds self' = class_seeds self \<and>
           rejected self' + length new =
             rejected self +
             sum_list (map (\<lambda>pool. min (length pool) (nat N))
                           (take (length cs) (drop i (class_seeds self))))"
  using assms(1)
proof (induction cs arbitrary: self i frame)
  case Nil
  then show ?case by simp
next
  case (Cons c cs)
  from Cons.prems obtain seeds f1 s1 where
    g: "getitem (class_seeds self) i = Inr seeds" and
    inner: "sample_class self N c 0 seeds frame = Inr (f1, s1)" and
    outer: "sample_classes s1 N (Suc i) cs f1 = Inr (frame', self')"
    by (auto simp: and_then_Inr_iff)
  from g have i: "i < length (class_seeds self)" and seeds: "seeds = class_seeds self ! i"
    by (auto simp: getitem_def split: if_splits)
  from sample_class_from_start[OF inner assms(2)] obtain new1 where
    f1: "f1 = frame @ new1" and c1: "\<forall>r\<in>set new1. info_class r = c"
    and s1: "class_seeds s1 = class_seeds self"
    and m1: "rejected self \<le> rejected s1"
    and n1: "rejected s1 + length new1 = rejected self + min (length seeds) (nat N)"
    by blast
  from Cons.IH[OF outer] obtain new2 where
    f2: "frame' = f1 @ new2" and c2: "\<forall>r\<in>set new2. info_class r \<in> set cs"
    and d2: "distinct cs \<longrightarrow> (\<forall>c. length (filter (\<lambda>r. info_class r = c) new2) \<le> nat N)"
    and s2: "class_seeds self' = class_seeds s1"
    and n2: "rejected self' + length new2 =
               rejected s1 + sum_list (map (\<lambda>pool. min (length pool) (nat N))
                                 (take (length cs) (drop (Suc i) (class_seeds s1))))"
    by blast
  have split: "take (length (c # cs)) (drop i (class_seeds self)) =
        seeds # take (length cs) (drop (Suc i) (class_seeds self))"
    using i seeds by (simp add: Cons_nth_drop_Suc[symmetric])
  have len1: "length new1 \<le> nat N" using n1 m1 by linarith
  have cap: "length (filter (\<lambda>r. info_class r = c') (new1 @ new2)) \<le> nat N"
    if dist: "distinct (c # cs)" for c'
  proof (cases "c' = c")
    case True
    have "filter (\<lambda>r. info_class r = c') new2 = []"
      using c2 dist True by (auto simp: filter_empty_conv)
    moreover have "length (filter (\<lambda>r. info_class r = c') new1) \<le> nat N"
      by (rule le_trans[OF length_filter_le len1])
    ultimately show ?thesis by simp
  next
    case False
    have "filter (\<lambda>r. info_class r = c') new1 = []"
      using c1 False by (auto simp: filter_empty_conv)
    then show ?thesis using d2 dist by simp
  qed
  have "frame' = frame @ (new1 @ new2)" using f1 f2 by simp
  moreover have "\<forall>r\<in>set (new1 @ new2). info_class r \<in> set (c # cs)" using c1 c2 by auto
  moreover have "class_seeds self' = class_seeds self" using s1 s2 by simp
  moreover have "rejected self' + length (new1 @ new2) =
      rejected self + sum_list (map (\<lambda>pool. min (length pool) (nat N))
                          (take (length (c # cs)) (drop i (class_seeds self))))"
    unfolding split using n1 n2 s1 by simp
  ultimately show ?case using cap by (intro exI[of _ "new1 @ new2"]) blast
qed

lemma wide_sample_2:
  "sample_patches wide_session 2 =
     Inr ([\<lparr>info_w = 40, info_h = 0, info_parent = ''wide.tif'', info_size = 40,
            info_level = 0, info_class = 0, info_id = ''wide''\<rparr>],
          wide_session\<lparr>rejected := 1\<rparr>)"
  by (simp add: sample_patches_def wide_unfold slice_sum_wide_left slice_sum_wide_right)

text \<open>
  Claim C1 states that a class contributes fewer than \<open>max_per_class\<close> patches only if its
  pool was exhausted. On the wide session with a cap of 2 the first seed of class 0 is
  rejected and the second accepted; the loop then breaks because \<open>j >= max_per_class - 1\<close>.
  One patch is accepted, one seed rejected, and the third seed of the pool is never
  attempted.
\<close>

theorem sample_patches_cap_counterexample:
  "map_sum id (\<lambda>(frame, self'). (map info_class frame, rejected self'))
     (sample_patches wide_session 2) = Inr ([0], 1) \<and>
   length (class_seeds wide_session ! 0) = 3"
  by (simp add: wide_sample_2) (simp add: wide_session_def)

text \<open>
  Claim C1, amended: the cap bounds the attempts, not the acceptances. For a cap
  \<open>N \<ge> 1\<close> and a class list without repetitions, a run of \<open>sample_patches\<close> that completes
  accepts at most \<open>N\<close> patches of any class, and the patches accepted plus the rejections
  counted equal the sum over the classes of \<open>min(N, pool length)\<close>. Every pass of the inner
  loop over a pool that completes attempts exactly \<open>min(N, pool length)\<close> seeds, each
  either accepted or counted as rejected. So a class contributes fewer than \<open>N\<close> patches
  when its pool has fewer than \<open>N\<close> seeds or when one of its first \<open>N\<close> seeds is rejected.
\<close>

theorem sample_patches_cap:
  assumes "1 \<le> N" and "distinct (class_list self)"
    and "sample_patches self N = Inr (frame, self')"
  shows "length (filter (\<lambda>r. info_class r = c) frame) \<le> nat N \<and>
         rejected self' + length frame =
           rejected self +
           sum_list (map (\<lambda>pool. min (length pool) (nat N))
                         (take (length (class_list self)) (class_seeds self))) \<and>
         (\<forall>s k seeds frame0 frame1 s1.
            sample_class s N k 0 seeds frame0 = Inr (frame1, s1) \<longrightarrow>
              rejected s1 + length frame1 =
                rejected s + length frame0 + min (length seeds) (nat N))"
proof -
  have run: "length (filter (\<lambda>r. info_class r = c) frame) \<le> nat N \<and>
         rejected self' + length frame =
           rejected self +
           sum_list (map (\<lambda>pool. min (length pool) (nat N))
                         (take (length (class_list self)) (class_seeds self)))"
    using sample_classes_spec[OF assms(3)[unfolded sample_patches_def] assms(1)] assms(2)
    by auto
  have pass: "rejected s1 + length frame1 =
      rejected s + length frame0 + min (length seeds) (nat N)"
    if "sample_class s N k 0 seeds frame0 = Inr (frame1, s1)" for s k seeds frame0 frame1 s1
    using sample_class_from_start[OF that assms(1)] by auto
  show ?thesis using run pass by blast
qed

text \<open>The wide session with a cap of 2: two attempts, one patch, one rejection.\<close>

theorem sample_patches_cap_witness:
  "(1::int) \<le> 2 \<and> distinct (class_list wide_session) \<and>
   sample_patches wide_session 2 =
     Inr ([\<lparr>info_w = 40, info_h = 0, info_parent = ''wide.tif'', info_size = 40,
            info_level = 0, info_class = 0, info_id = ''wide''\<rparr>],
          wide_session\<lparr>rejected := 1\<rparr>) \<and>
   length (filter (\<lambda>r. info_class r = 0)
     [\<lparr>info_w = 40, info_h = 0, info_parent = ''wide.tif'', info_size = 40,
       info_level = 0, info_class = 0, info_id = ''wide''\<rparr>]) \<le> nat 2 \<and>
   rejected (wide_session\<lparr>rejected := 1\<rparr>) + 1 =
     rejected wide_session +
     sum_list (map (\<lambda>pool. min (length pool) (nat 2))
                   (take (length (class_list wide_session)) (class_seeds wide_session)))"
proof -
  have d: "distinct (class_list wide_session)" by (simp add: wide_session_def)
  from sample_patches_cap[OF _ d wide_sample_2, of 0] d wide_sample_2
  show ?thesis by simp
qed

section \<open>Construction and seed generation\<close>

lemma first_index_Some:
  "first_index xs x = Some n \<Longrightarrow> n < length xs \<and> xs ! n = x \<and> (\<forall>m<n. xs ! m \<noteq> x)"
proof (induction xs arbitrary: n)
  case Nil
  then show ?case by simp
next
  case (Cons y ys)
  show ?case
  proof (cases "y = x")
    case True
    then show ?thesis using Cons.prems by simp
  next
    case False
    then obtain k where k: "first_index ys x = Some k" and n: "n = Suc k"
      using Cons.prems by auto
    from Cons.IH[OF k] have "k < length ys" "ys ! k = x" "\<forall>m<k. ys ! m \<noteq> x" by auto
    then show ?thesis using n False by (auto simp: nth_Cons split: nat.splits)
  qed
qed

lemma first_index_None: "first_index xs x = None \<longleftrightarrow> x \<notin> set xs"
  by (induction xs) auto

lemma index_Inr: "index xs x = Inr n \<Longrightarrow> n < length xs \<and> xs ! n = x \<and> (\<forall>m<n. xs ! m \<noteq> x)"
  using first_index_Some[of xs x n] by (auto simp: index_def split: option.splits)

lemma index_not_member: "x \<notin> set xs \<Longrightarrow> index xs x = Inl ValueError"
  by (simp add: index_def first_index_None[THEN iffD2])

lemma init_cache_hit_Inr:
  assumes hit: "find_tissue_mask world (file_id world f) tmd = Some tm"
    and ok: "init world f l0 tmd ad = Inr s"
  shows "dtype tm = Bool \<and> tissue_mask s = tm \<and> wsi s = open_slide world f \<and>
         index (level_dimensions (open_slide world f)) (ncols tm, nrows tm) = Inr (tissue_mask_level s)"
  using ok unfolding init_def Let_def
  by (auto simp: and_then_Inr_iff hit split: if_splits prod.splits)

lemma init_tissue_mask_level:
  assumes ok: "init world f l0 tmd ad = Inr s"
  shows "tissue_mask_level s < length (level_downsamples (wsi s))"
  using ok unfolding init_def Let_def
  by (auto simp: and_then_Inr_iff getitem_def split: if_splits prod.splits option.splits)

lemma get_classes_and_seeds_annotated:
  assumes "annotation self = Some a"
  shows "get_classes_and_seeds shuffle self =
           (if tissue_mask_level self < length (level_downsamples (wsi self))
            then Inl NameError else Inl IndexError)"
  using assms by (simp add: get_classes_and_seeds_def getitem_def Let_def)

lemma prepare_sampling_needs_seeds:
  "prepare_sampling shuffle self m p = Inr ss \<Longrightarrow>
     \<exists>cl cs. get_classes_and_seeds shuffle self = Inr (cl, cs) \<and> class_list ss = cl"
  unfolding prepare_sampling_def
  by (auto simp: and_then_Inr_iff split: option.splits prod.splits)

lemma init_annotated:
  "init annotated_world ''slide.tif'' (Given 40) ''tm'' (Some ''ann'') = Inr annotated_sampler"
  by (simp add: init_def annotated_world_def plain_world_def annotated_sampler_def
      plain_sampler_def two_level_slide_def full_mask_def index_def getitem_def Let_def)

text \<open>
  Claim C8: on the cache-hit path a loaded mask is accepted only if its dtype is boolean
  and its transposed shape \<open>(ncols, nrows)\<close> is an entry of the level-dimension list of
  the slide; the level recorded as the tissue-mask level is the first such entry. If the
  dtype is not boolean or no level matches, \<open>__init__\<close> raises.
\<close>

theorem init_cache_hit:
  assumes hit: "find_tissue_mask world (file_id world f) tmd = Some tm"
  shows "(\<forall>s. init world f l0 tmd ad = Inr s \<longrightarrow>
            dtype tm = Bool \<and> tissue_mask s = tm \<and>
            tissue_mask_level s < length (level_dimensions (wsi s)) \<and>
            level_dimensions (wsi s) ! tissue_mask_level s = (ncols tm, nrows tm) \<and>
            (\<forall>n<tissue_mask_level s. level_dimensions (wsi s) ! n \<noteq> (ncols tm, nrows tm))) \<and>
         (dtype tm \<noteq> Bool \<or> (ncols tm, nrows tm) \<notin> set (level_dimensions (open_slide world f)) \<longrightarrow>
            (\<exists>e. init world f l0 tmd ad = Inl e))"
proof (rule conjI)
  show "\<forall>s. init world f l0 tmd ad = Inr s \<longrightarrow>
            dtype tm = Bool \<and> tissue_mask s = tm \<and>
            tissue_mask_level s < length (level_dimensions (wsi s)) \<and>
            level_dimensions (wsi s) ! tissue_mask_level s = (ncols tm, nrows tm) \<and>
            (\<forall>n<tissue_mask_level s. level_dimensions (wsi s) ! n \<noteq> (ncols tm, nrows tm))"
  proof (intro allI impI)
    fix s assume ok: "init world f l0 tmd ad = Inr s"
    note h = init_cache_hit_Inr[OF hit ok]
    from h have w: "wsi s = open_slide world f" by simp
    from h have "index (level_dimensions (wsi s)) (ncols tm, nrows tm) = Inr (tissue_mask_level s)"
      by (simp add: w)
    from index_Inr[OF this] h
    show "dtype tm = Bool \<and> tissue_mask s = tm \<and>
            tissue_mask_level s < length (level_dimensions (wsi s)) \<and>
            level_dimensions (wsi s) ! tissue_mask_level s = (ncols tm, nrows tm) \<and>
            (\<forall>n<tissue_mask_level s. level_dimensions (wsi s) ! n \<noteq> (ncols tm, nrows tm))"
      by simp
  qed
next
  show "dtype tm \<noteq> Bool \<or> (ncols tm, nrows tm) \<notin> set (level_dimensions (open_slide world f)) \<longrightarrow>
            (\<exists>e. init world f l0 tmd ad = Inl e)"
  proof
    assume bad: "dtype tm \<noteq> Bool \<or> (ncols tm, nrows tm) \<notin> set (level_dimensions (open_slide world f))"
    show "\<exists>e. init world f l0 tmd ad = Inl e"
    proof (cases "init world f l0 tmd ad")
      case (Inl e)
      then show ?thesis by blast
    next
      case (Inr s)
      from init_cache_hit_Inr[OF hit Inr] bad index_not_member
      show ?thesis by fastforce
    qed
  qed
qed

text \<open>
  The plain world has a cached boolean mask of shape (2, 2), which matches level 1; the
  same mask stored as \<open>uint8\<close> makes the construction fail.
\<close>

theorem init_cache_hit_witness:
  "find_tissue_mask plain_world (file_id plain_world ''slide.tif'') ''tm'' = Some full_mask \<and>
   init plain_world ''slide.tif'' (Given 40) ''tm'' None = Inr plain_sampler \<and>
   dtype full_mask = Bool \<and> tissue_mask plain_sampler = full_mask \<and>
   tissue_mask_level plain_sampler = 1 \<and>
   level_dimensions (wsi plain_sampler) ! 1 = (ncols full_mask, nrows full_mask) \<and>
   (\<exists>e. init (plain_world\<lparr>find_tissue_mask := (\<lambda>fid dir. Some (full_mask\<lparr>dtype := Uint8\<rparr>))\<rparr>)
           ''slide.tif'' (Given 40) ''tm'' None = Inl e)"
proof -
  have h: "find_tissue_mask plain_world (file_id plain_world ''slide.tif'') ''tm'' = Some full_mask"
    by (simp add: plain_world_def)
  have l: "tissue_mask_level plain_sampler = 1" by (simp add: plain_sampler_def)
  have h': "find_tissue_mask (plain_world\<lparr>find_tissue_mask := (\<lambda>fid dir. Some (full_mask\<lparr>dtype := Uint8\<rparr>))\<rparr>)
      (file_id (plain_world\<lparr>find_tissue_mask := (\<lambda>fid dir. Some (full_mask\<lparr>dtype := Uint8\<rparr>))\<rparr>) ''slide.tif'') ''tm''
      = Some (full_mask\<lparr>dtype := Uint8\<rparr>)"
    by simp
  have bad: "dtype (full_mask\<lparr>dtype := Uint8\<rparr>) \<noteq> Bool" by simp
  from init_cache_hit[OF h, of "Given 40" None] init_plain l
  have a: "dtype full_mask = Bool \<and> tissue_mask plain_sampler = full_mask \<and>
     level_dimensions (wsi plain_sampler) ! 1 = (ncols full_mask, nrows full_mask)"
    by auto
  from init_cache_hit[OF h', of "Given 40" None] bad
  have b: "\<exists>e. init (plain_world\<lparr>find_tissue_mask := (\<lambda>fid dir. Some (full_mask\<lparr>dtype := Uint8\<rparr>))\<rparr>)
           ''slide.tif'' (Given 40) ''tm'' None = Inl e"
    by blast
  show ?thesis using h init_plain l a b by blast
qed

text \<open>
  Claim C4 describes what seed generation does when an annotation is configured: read the
  annotation at a low-resolution level and add one shuffled pool per non-zero label. In
  the source the statement that chooses that level passes \<open>desired_downsampling=down\<close>,
  and \<open>down\<close> is bound nowhere. With an annotation present, \<open>_get_classes_and_seeds\<close>
  therefore raises (\<open>NameError\<close> on every sampler that \<open>__init__\<close> built) after it has set
  the class list to \<open>[0]\<close>; \<open>prepare_sampling\<close> never completes, and no pool of an
  annotated class is ever built.
\<close>

theorem seed_generation_with_annotation:
  assumes "annotation self = Some a"
  shows "(\<exists>e. get_classes_and_seeds shuffle self = Inl e) \<and>
         (\<exists>e. prepare_sampling shuffle self m p = Inl e) \<and>
         (\<forall>world f l0 tmd ad. init world f l0 tmd ad = Inr self \<longrightarrow>
            get_classes_and_seeds shuffle self = Inl NameError)"
proof -
  have g: "\<exists>e. get_classes_and_seeds shuffle self = Inl e"
    using get_classes_and_seeds_annotated[OF assms] by simp
  have p: "\<exists>e. prepare_sampling shuffle self m p = Inl e"
  proof (cases "prepare_sampling shuffle self m p")
    case (Inl e)
    then show ?thesis by blast
  next
    case (Inr ss)
    from prepare_sampling_needs_seeds[OF this] g show ?thesis by auto
  qed
  have n: "get_classes_and_seeds shuffle self = Inl NameError"
    if "init world f l0 tmd ad = Inr self" for world f l0 tmd ad
    using init_tissue_mask_level[OF that] get_classes_and_seeds_annotated[OF assms] by simp
  show ?thesis using g p n by blast
qed

text \<open>The annotated world: the annotation is found, and seed generation raises.\<close>

theorem seed_generation_with_annotation_witness:
  "init annotated_world ''slide.tif'' (Given 40) ''tm'' (Some ''ann'') = Inr annotated_sampler \<and>
   annotation annotated_sampler = Some two_level_slide \<and>
   get_classes_and_seeds rev annotated_sampler = Inl NameError \<and>
   (\<exists>e. prepare_sampling rev annotated_sampler 40 2 = Inl e)"
proof -
  have a: "annotation annotated_sampler = Some two_level_slide"
    by (simp add: annotated_sampler_def)
  from seed_generation_with_annotation[OF a, of rev 40 2] init_annotated a
  show ?thesis by blast
qed

section \<open>A directory without an annotation for the slide\<close>

text \<open>
  None of the methods reads the stored directory name \<open>annotation_dir\<close>: each of them
  commutes with forgetting it.
\<close>

lemma map_sum_and_then:
  "map_sum id g (and_then m f) = and_then m (\<lambda>x. map_sum id g (f x))"
  by (cases m) simp_all

lemma and_then_case: "and_then m f = (case m of Inl e \<Rightarrow> Inl e | Inr x \<Rightarrow> f x)"
  by (cases m) simp_all

lemma init_missing_annotation:
  assumes "find_annotation world (file_id world f) d = None"
  shows "init world f l0 tmd (Some d) =
           map_sum id (\<lambda>s. s\<lparr>annotation_dir := Some d\<rparr>) (init world f l0 tmd None)"
  by (simp add: init_def Let_def map_sum_and_then assms case_prod_unfold)

lemma init_no_dir_annotation: "init world f l0 tmd None = Inr s \<Longrightarrow> annotation s = None"
  unfolding init_def Let_def
  by (auto simp: and_then_Inr_iff split: prod.splits)

lemma get_classes_and_seeds_annotation_dir:
  "get_classes_and_seeds shuffle (s\<lparr>annotation_dir := x\<rparr>) = get_classes_and_seeds shuffle s"
  by (simp add: get_classes_and_seeds_def)

lemma prepare_sampling_annotation_dir:
  "prepare_sampling shuffle (s\<lparr>annotation_dir := None\<rparr>) m p =
     map_sum id forget_annotation_dir (prepare_sampling shuffle s m p)"
  by (simp add: prepare_sampling_def forget_annotation_dir_def map_sum_and_then
      get_classes_and_seeds_annotation_dir case_prod_unfold split: option.splits)

lemma prepare_sampling_no_annotation:
  "annotation s = None \<Longrightarrow> prepare_sampling shuffle s m p = Inr self \<Longrightarrow> class_list self = [0]"
  unfolding prepare_sampling_def get_classes_and_seeds_def
  by (auto simp: and_then_Inr_iff Let_def split: option.splits prod.splits)

lemma class_c_patch_i_annotation_dir:
  "class_c_patch_i (forget_annotation_dir self) c i =
     map_sum id (map_prod id forget_annotation_dir) (class_c_patch_i self c i)"
  unfolding class_c_patch_i_def and_then_case forget_annotation_dir_def Let_def
  by (simp split: sum.splits option.splits prod.splits)

lemma forget_annotation_dir_seeds [simp]:
  "class_seeds (forget_annotation_dir self) = class_seeds self"
  "class_list (forget_annotation_dir self) = class_list self"
  by (simp_all add: forget_annotation_dir_def)

lemma sample_class_annotation_dir:
  "sample_class (forget_annotation_dir self) N c j seeds frame =
     map_sum id (map_prod id forget_annotation_dir) (sample_class self N c j seeds frame)"
proof (induction seeds arbitrary: self j frame)
  case Nil
  then show ?case by simp
next
  case (Cons seed seeds)
  show ?case
  proof (cases "class_c_patch_i self c (int j)")
    case (Inl e)
    then show ?thesis by (simp add: class_c_patch_i_annotation_dir)
  next
    case (Inr res)
    obtain r s1 where res: "res = (r, s1)" by (cases res)
    show ?thesis
      using Inr res Cons.IH[of s1]
      by (simp add: class_c_patch_i_annotation_dir Let_def)
  qed
qed

lemma sample_classes_annotation_dir:
  "sample_classes (forget_annotation_dir self) N i cs frame =
     map_sum id (map_prod id forget_annotation_dir) (sample_classes self N i cs frame)"
proof (induction cs arbitrary: self i frame)
  case Nil
  then show ?case by simp
next
  case (Cons c cs)
  show ?case
  proof (cases "getitem (class_seeds self) i")
    case (Inl e)
    then show ?thesis by simp
  next
    case seeds: (Inr seeds)
    show ?thesis
    proof (cases "sample_class self N c 0 seeds frame")
      case (Inl e)
      then show ?thesis using seeds by (simp add: sample_class_annotation_dir)
    next
      case (Inr res)
      obtain f1 s1 where res: "res = (f1, s1)" by (cases res)
      show ?thesis using seeds Inr res Cons.IH[of s1]
        by (simp add: sample_class_annotation_dir)
    qed
  qed
qed

lemma sample_patches_annotation_dir:
  "sample_patches (forget_annotation_dir self) N =
     map_sum id (map_prod id forget_annotation_dir) (sample_patches self N)"
  by (simp add: sample_patches_def sample_classes_annotation_dir)

lemma rejection_without_annotation:
  assumes "annotation (base self) = None"
    and "class_c_patch_i self c i = Inr (None, self')"
  shows "\<exists>bg idx pool h w i' j'.
           background (base self) = Some bg \<and> index (class_list self) c = Inr idx \<and>
           getitem (class_seeds self) idx = Inr pool \<and> py_getitem pool i = Inr (h, w) \<and>
           level_converter (wsi (base self)) h 0 (bg_level bg) = Inr i' \<and>
           level_converter (wsi (base self)) w 0 (bg_level bg) = Inr j' \<and>
           10 * int (slice_sum (bg_data bg) i' j' (bg_patchsize bg)) \<le> 9 * (bg_patchsize bg)\<^sup>2"
  using assms(2) unfolding class_c_patch_i_def
  by (auto simp: and_then_Inr_iff Let_def assms(1) split: option.splits if_splits prod.splits)

lemma init_plain_dir:
  "init plain_world ''slide.tif'' (Given 40) ''tm'' (Some ''ann'') =
     Inr (plain_sampler\<lparr>annotation_dir := Some ''ann''\<rparr>)"
  by (simp add: init_def plain_world_def plain_sampler_def two_level_slide_def full_mask_def
      index_def getitem_def Let_def)

text \<open>
  Claim C9: if an annotation directory is given at construction but holds no annotation
  for the slide, the sampler is the one constructed without a directory, up to the stored
  directory name, and behaves like it afterwards. The annotation is absent;
  \<open>prepare_sampling\<close> gives the same session and the class list \<open>[0]\<close>; the extractor and
  \<open>sample_patches\<close> give the same results on the two objects; and on an object without
  annotation no annotation-consistency check is applied: every rejection is a rejection
  by the coverage check.
\<close>

theorem missing_annotation_file:
  assumes nofile: "find_annotation world (file_id world f) d = None"
    and ok: "init world f l0 tmd (Some d) = Inr s"
  shows "init world f l0 tmd None = Inr (s\<lparr>annotation_dir := None\<rparr>) \<and>
         annotation s = None \<and>
         prepare_sampling shuffle (s\<lparr>annotation_dir := None\<rparr>) m p =
           map_sum id forget_annotation_dir (prepare_sampling shuffle s m p) \<and>
         (\<forall>self. prepare_sampling shuffle s m p = Inr self \<longrightarrow>
            class_list self = [0] \<and> annotation (base self) = None) \<and>
         class_c_patch_i (forget_annotation_dir self2) c i =
           map_sum id (map_prod id forget_annotation_dir) (class_c_patch_i self2 c i) \<and>
         sample_patches (forget_annotation_dir self2) N =
           map_sum id (map_prod id forget_annotation_dir) (sample_patches self2 N) \<and>
         (annotation (base self2) = None \<longrightarrow>
            (\<forall>self'. class_c_patch_i self2 c i = Inr (None, self') \<longrightarrow>
               (\<exists>bg idx pool h w i' j'.
                  background (base self2) = Some bg \<and> index (class_list self2) c = Inr idx \<and>
                  getitem (class_seeds self2) idx = Inr pool \<and> py_getitem pool i = Inr (h, w) \<and>
                  level_converter (wsi (base self2)) h 0 (bg_level bg) = Inr i' \<and>
                  level_converter (wsi (base self2)) w 0 (bg_level bg) = Inr j' \<and>
                  10 * int (slice_sum (bg_data bg) i' j' (bg_patchsize bg))
                    \<le> 9 * (bg_patchsize bg)\<^sup>2)))"
proof -
  from init_missing_annotation[OF nofile, of l0 tmd] ok
  obtain s0 where s0: "init world f l0 tmd None = Inr s0" and s: "s = s0\<lparr>annotation_dir := Some d\<rparr>"
    by (cases "init world f l0 tmd None") auto
  have dir0: "annotation_dir s0 = None"
    using s0 unfolding init_def Let_def by (auto simp: and_then_Inr_iff split: prod.splits)
  have a: "init world f l0 tmd None = Inr (s\<lparr>annotation_dir := None\<rparr>)"
    using s0 s dir0 by simp
  have b: "annotation s = None" using init_no_dir_annotation[OF s0] s by simp
  have d: "class_list self = [0] \<and> annotation (base self) = None"
    if "prepare_sampling shuffle s m p = Inr self" for self
    using prepare_sampling_no_annotation[OF b that] prepare_sampling_base[OF that] b by simp
  have d': "\<forall>self. prepare_sampling shuffle s m p = Inr self \<longrightarrow>
            class_list self = [0] \<and> annotation (base self) = None"
    using d by blast
  have g: "annotation (base self2) = None \<longrightarrow>
            (\<forall>self'. class_c_patch_i self2 c i = Inr (None, self') \<longrightarrow>
               (\<exists>bg idx pool h w i' j'.
                  background (base self2) = Some bg \<and> index (class_list self2) c = Inr idx \<and>
                  getitem (class_seeds self2) idx = Inr pool \<and> py_getitem pool i = Inr (h, w) \<and>
                  level_converter (wsi (base self2)) h 0 (bg_level bg) = Inr i' \<and>
                  level_converter (wsi (base self2)) w 0 (bg_level bg) = Inr j' \<and>
                  10 * int (slice_sum (bg_data bg) i' j' (bg_patchsize bg))
                    \<le> 9 * (bg_patchsize bg)\<^sup>2))"
    by (intro impI allI) (rule rejection_without_annotation)
  show ?thesis
    by (intro conjI)
      (rule a b d' g prepare_sampling_annotation_dir class_c_patch_i_annotation_dir
        sample_patches_annotation_dir)+
qed

text \<open>
  The plain world holds no annotation for the slide. Constructing with the directory
  \<open>ann\<close> gives the plain sampler with the directory name stored, the class list is
  \<open>[0]\<close>, and the rejection on the wide session, which has no annotation, is one by
  coverage.
\<close>

theorem missing_annotation_file_witness:
  "find_annotation plain_world (file_id plain_world ''slide.tif'') ''ann'' = None \<and>
   init plain_world ''slide.tif'' (Given 40) ''tm'' (Some ''ann'') =
     Inr (plain_sampler\<lparr>annotation_dir := Some ''ann''\<rparr>) \<and>
   init plain_world ''slide.tif'' (Given 40) ''tm'' None = Inr plain_sampler \<and>
   annotation (plain_sampler\<lparr>annotation_dir := Some ''ann''\<rparr>) = None \<and>
   prepare_sampling rev (plain_sampler\<lparr>annotation_dir := Some ''ann''\<rparr>) 40 2 =
     Inr (plain_session\<lparr>base := plain_sampler\<lparr>annotation_dir := Some ''ann''\<rparr>\<rparr>) \<and>
   class_list (plain_session\<lparr>base := plain_sampler\<lparr>annotation_dir := Some ''ann''\<rparr>\<rparr>) = [0] \<and>
   annotation (base wide_session) = None \<and>
   class_c_patch_i wide_session 0 0 = Inr (None, wide_session\<lparr>rejected := 1\<rparr>) \<and>
   (\<exists>i' j'. 10 * int (slice_sum (bg_data wide_background) i' j' (bg_patchsize wide_background))
              \<le> 9 * (bg_patchsize wide_background)\<^sup>2)"
proof -
  have n: "find_annotation plain_world (file_id plain_world ''slide.tif'') ''ann'' = None"
    by (simp add: plain_world_def)
  have p: "prepare_sampling rev (plain_sampler\<lparr>annotation_dir := Some ''ann''\<rparr>) 40 2 =
     Inr (plain_session\<lparr>base := plain_sampler\<lparr>annotation_dir := Some ''ann''\<rparr>\<rparr>)"
    by (simp add: prepare_sampling_def plain_sampler_def plain_session_def get_level_plain
      getitem_def level_converter_two_level_2 py_int_def
      get_classes_and_seeds_def nonzero_full_mask floor_eq_iff)
      (simp add: two_level_slide_def)
  have w: "annotation (base wide_session) = None"
    and bgw: "background (base wide_session) = Some wide_background"
    by (simp_all add: wide_session_def wide_sampler_def)
  note t = missing_annotation_file[OF n init_plain_dir, of rev 40 2 wide_session 0 0 2]
  have a: "init plain_world ''slide.tif'' (Given 40) ''tm'' None = Inr plain_sampler"
    by (rule init_plain)
  have b: "annotation (plain_sampler\<lparr>annotation_dir := Some ''ann''\<rparr>) = None"
    using t by blast
  have c: "class_list (plain_session\<lparr>base := plain_sampler\<lparr>annotation_dir := Some ''ann''\<rparr>\<rparr>) = [0]"
    using t p by blast
  have "\<exists>bg i' j'. background (base wide_session) = Some bg \<and>
      10 * int (slice_sum (bg_data bg) i' j' (bg_patchsize bg)) \<le> 9 * (bg_patchsize bg)\<^sup>2"
    using t w wide_origin_rejected by blast
  then have d: "\<exists>i' j'. 10 * int (slice_sum (bg_data wide_background) i' j' (bg_patchsize wide_background))
              \<le> 9 * (bg_patchsize wide_background)\<^sup>2"
    using bgw by auto
  show ?thesis using n init_plain_dir a b p c w wide_origin_rejected d by blast
qed

end
